theory Spec2Isabelle
  imports Main "HOL-Library.AList"
begin

section \<open>Values of type interface{} and errors\<close>

text \<open>
  The loaders of jsonLoader.go hand Go values of type \<^verbatim>\<open>interface{}\<close> around: the source a
  loader was built from, and the document \<^verbatim>\<open>LoadJSON\<close> returns. A Go \<^verbatim>\<open>string\<close> and a
  \<^verbatim>\<open>[]byte\<close> are both sequences of bytes, modelled as \<^typ>\<open>string\<close> (a list of 8-bit
  characters). The dynamic types that occur are: nil, bool, json.Number (a string type holding
  the literal), string, []byte, []interface{}, map[string]interface{} and, for the Go and raw
  loaders, any other Go value (\<open>VNative\<close>). A Go map is kept as an association list with
  distinct keys; \<^verbatim>\<open>m[key] = value\<close> is \<^const>\<open>AList.update\<close>.
\<close>

datatype 'g iface =
    VNil
  | VBool bool
  | VNumber string
  | VString string
  | VBytes string
  | VArray "'g iface list"
  | VObject "(string \<times> 'g iface) list"
  | VNative 'g

text \<open>
  Go's \<^verbatim>\<open>error\<close> values: io.EOF, io.ErrUnexpectedEOF, io.ErrShortWrite, the decoder's
  *json.SyntaxError (the offending byte and the context phrase of its message), the decoder's
  internal "out of sync" panic, and errors raised by collaborators outside this file
  (json.Marshal, a caller's io.Writer or io.Reader, the reference parser).
\<close>

datatype error =
    EOF
  | ErrUnexpectedEOF
  | ErrShortWrite
  | SyntaxError char string
  | phasePanic
  | UnsupportedTypeError string
  | UnsupportedValueError string
  | IOError string
  | ReferenceError string

text \<open>A Go result pair \<^verbatim>\<open>(interface{}, error)\<close>; the error is \<open>None\<close> for nil.\<close>

type_synonym 'g result = "'g iface \<times> error option"

section \<open>The Value Decoder: encoding/json's Decoder in UseNumber mode\<close>

text \<open>
  Modelled from the spec: the Value Decoder is Go's encoding/json (\<^verbatim>\<open>json.NewDecoder\<close>,
  \<^verbatim>\<open>UseNumber\<close>, \<^verbatim>\<open>Decode\<close>), a library that \<^verbatim>\<open>decodeJSONUsingNumber\<close> calls and that
  is not among the repository's files. The spec: the decoder converts "a byte stream into the
  canonical JSON value model, preserving numeric literal fidelity"; its input format is
  "RFC 8259 compliant, with numbers kept as literal text/arbitrary-precision rather than
  fixed-width floats";
  "malformed JSON (unterminated structures, invalid tokens, truncated input) surfaces a
  decoding error". Where the spec is silent (how far into the stream one decode looks, how
  many bytes it takes from the reader, which error it reports) the definitions follow the
  library for a target of type \<^verbatim>\<open>interface{}\<close>: the scanner's states and transitions
  (scanner.go), the value each token denotes (decode.go: literalStore, arrayInterface,
  objectInterface, convertNumber with useNumber set, unquote) and the read loop of
  \<^verbatim>\<open>Decoder.readValue\<close> and \<^verbatim>\<open>Decoder.refill\<close> (stream.go). The library scans the bytes
  of one value and then builds the value from them; the model builds the value while it
  scans, which gives the same value for the same bytes. A syntax error keeps its byte and
  context phrase; its byte offset is left out.
\<close>

subsection \<open>Bytes\<close>

definition dquote :: char where
  "dquote = CHR 0x22"

definition backslash :: char where
  "backslash = CHR 0x5C"

definition isSpace :: "char \<Rightarrow> bool" where
  "isSpace c = (c = CHR '' '' \<or> c = CHR 0x09 \<or> c = CHR 0x0D \<or> c = CHR 0x0A)"

definition isDigit :: "char \<Rightarrow> bool" where
  "isDigit c = (c \<in> set ''0123456789'')"

definition isDigit19 :: "char \<Rightarrow> bool" where
  "isDigit19 c = (c \<in> set ''123456789'')"

definition isHex :: "char \<Rightarrow> bool" where
  "isHex c = (c \<in> set ''0123456789abcdefABCDEF'')"

definition nonSpace :: "string \<Rightarrow> bool" where
  "nonSpace b = (\<not> list_all isSpace b)"

subsection \<open>String literals: decode.go's unquote\<close>

definition RuneError :: nat where
  "RuneError = 0xFFFD"

definition hexval :: "char \<Rightarrow> nat" where
  "hexval c =
     (let n = of_char c in
      if CHR ''0'' = c \<or> isDigit19 c then n - 48
      else if c \<in> set ''abcdef'' then n - 97 + 10
      else n - 65 + 10)"

fun getu4 :: "string \<Rightarrow> nat option" where
  "getu4 (b # u # h1 # h2 # h3 # h4 # s) =
     (if b = backslash \<and> u = CHR ''u'' \<and> isHex h1 \<and> isHex h2 \<and> isHex h3 \<and> isHex h4
      then Some (((hexval h1 * 16 + hexval h2) * 16 + hexval h3) * 16 + hexval h4)
      else None)"
| "getu4 s = None"

definition EncodeRune :: "nat \<Rightarrow> string" where
  "EncodeRune r =
     (if r \<le> 0x7F then [char_of r]
      else if r \<le> 0x7FF then [char_of (0xC0 + r div 64), char_of (0x80 + r mod 64)]
      else if 0x10FFFF < r \<or> (0xD800 \<le> r \<and> r \<le> 0xDFFF) then [CHR 0xEF, CHR 0xBF, CHR 0xBD]
      else if r \<le> 0xFFFF then
        [char_of (0xE0 + r div 4096), char_of (0x80 + (r div 64) mod 64),
         char_of (0x80 + r mod 64)]
      else
        [char_of (0xF0 + r div 262144), char_of (0x80 + (r div 4096) mod 64),
         char_of (0x80 + (r div 64) mod 64), char_of (0x80 + r mod 64)])"

text \<open>
  utf8.DecodeRune: the rune at the head of the bytes and its width; an invalid or truncated
  encoding is \<open>(RuneError, 1)\<close>. \<open>acceptRange\<close> gives, for a leading byte, the width and the
  range allowed for the second byte.
\<close>

definition acceptRange :: "nat \<Rightarrow> nat \<times> nat \<times> nat" where
  "acceptRange p0 =
     (if p0 < 0xE0 then (2, 0x80, 0xBF)
      else if p0 = 0xE0 then (3, 0xA0, 0xBF)
      else if p0 = 0xED then (3, 0x80, 0x9F)
      else if p0 < 0xF0 then (3, 0x80, 0xBF)
      else if p0 = 0xF0 then (4, 0x90, 0xBF)
      else if p0 = 0xF4 then (4, 0x80, 0x8F)
      else (4, 0x80, 0xBF))"

definition contByte :: "nat \<Rightarrow> bool" where
  "contByte b = (0x80 \<le> b \<and> b \<le> 0xBF)"

fun DecodeRune :: "string \<Rightarrow> nat \<times> nat" where
  "DecodeRune [] = (RuneError, 0)"
| "DecodeRune (c0 # p) =
     (let p0 = of_char c0; bs = map of_char p in
      if p0 < 0x80 then (p0, 1)
      else if p0 < 0xC2 \<or> 0xF4 < p0 then (RuneError, 1)
      else
        (case acceptRange p0 of (sz, lo, hi) \<Rightarrow>
          if length bs + 1 < sz then (RuneError, 1)
          else if bs ! 0 < lo \<or> hi < bs ! 0 then (RuneError, 1)
          else if sz \<le> 2 then ((p0 mod 32) * 64 + bs ! 0 mod 64, 2)
          else if \<not> contByte (bs ! 1) then (RuneError, 1)
          else if sz \<le> 3 then ((p0 mod 16) * 4096 + (bs ! 0 mod 64) * 64 + bs ! 1 mod 64, 3)
          else if \<not> contByte (bs ! 2) then (RuneError, 1)
          else ((p0 mod 8) * 262144 + (bs ! 0 mod 64) * 4096 + (bs ! 1 mod 64) * 64
                  + bs ! 2 mod 64, 4)))"

definition IsSurrogate :: "nat \<Rightarrow> bool" where
  "IsSurrogate r = (0xD800 \<le> r \<and> r < 0xE000)"

text \<open>utf16.DecodeRune: the code point of a surrogate pair, or the replacement character.\<close>

definition utf16_DecodeRune :: "nat \<Rightarrow> nat option \<Rightarrow> nat" where
  "utf16_DecodeRune r1 r2 =
     (case r2 of
        None \<Rightarrow> RuneError
      | Some r2' \<Rightarrow>
          if 0xD800 \<le> r1 \<and> r1 < 0xDC00 \<and> 0xDC00 \<le> r2' \<and> r2' < 0xE000
          then (r1 - 0xD800) * 1024 + (r2' - 0xDC00) + 0x10000
          else RuneError)"

definition unescape :: "char \<Rightarrow> char option" where
  "unescape e =
     (if e = dquote \<or> e = backslash \<or> e = CHR ''/'' \<or> e = CHR 0x27 then Some e
      else if e = CHR ''b'' then Some (CHR 0x08)
      else if e = CHR ''f'' then Some (CHR 0x0C)
      else if e = CHR ''n'' then Some (CHR 0x0A)
      else if e = CHR ''r'' then Some (CHR 0x0D)
      else if e = CHR ''t'' then Some (CHR 0x09)
      else None)"

text \<open>
  \<open>unquote\<close> takes the bytes between the quotes of a string literal. \<open>None\<close> is the
  library's \<^verbatim>\<open>ok = false\<close>, which the scanner's checks exclude.
\<close>

function unquote :: "string \<Rightarrow> string option" where
  "unquote [] = Some []"
| "unquote (c # s) =
     (if c = backslash then
        (case s of
           [] \<Rightarrow> None
         | e # s' \<Rightarrow>
             if e = CHR ''u'' then
               (case getu4 (c # s) of
                  None \<Rightarrow> None
                | Some rr \<Rightarrow>
                    if IsSurrogate rr then
                      (let dec = utf16_DecodeRune rr (getu4 (drop 5 s)) in
                       if dec \<noteq> RuneError
                       then map_option ((@) (EncodeRune dec)) (unquote (drop 11 s))
                       else map_option ((@) (EncodeRune RuneError)) (unquote (drop 5 s)))
                    else map_option ((@) (EncodeRune rr)) (unquote (drop 5 s)))
             else
               (case unescape e of
                  None \<Rightarrow> None
                | Some b \<Rightarrow> map_option ((#) b) (unquote s')))
      else if c = dquote \<or> of_char c < (0x20 :: nat) then None
      else if of_char c < (0x80 :: nat) then map_option ((#) c) (unquote s)
      else
        (case DecodeRune (c # s) of (rr, width) \<Rightarrow>
           map_option ((@) (EncodeRune rr)) (unquote (drop (width - 1) s))))"
  by pat_completeness auto
termination
  by (relation "measure length") auto

subsection \<open>The scanner: scanner.go's states, with the value under construction\<close>

text \<open>
  A frame of the scanner's parse stack, with what has been decoded of the enclosing
  composite: the members of the object so far (and, under \<open>parseObjectValue\<close>, the key whose
  value is being read), or the elements of the array so far.
\<close>

datatype 'g frame =
    parseObjectKey "(string \<times> 'g iface) list"
  | parseObjectValue "(string \<times> 'g iface) list" string
  | parseArrayValue "'g iface list"

datatype numstate =
  stateNeg | state1 | state0 | stateDot | stateDot0 | stateE | stateESign | stateE0

datatype strstate =
    stateInString
  | stateInStringEsc
  | stateInStringEscU
  | stateInStringEscU1
  | stateInStringEscU12
  | stateInStringEscU123

text \<open>
  The scanner's step function as data. \<open>stateEndValue v\<close> is the library's stateEndValue
  after the value \<open>v\<close> (\<open>stateEndKey k\<close> after an object key); \<open>stateNumber\<close> and
  \<open>stateString\<close> carry the bytes of the literal read so far; \<open>stateLiteral rest name v\<close>
  is inside \<^verbatim>\<open>true\<close>, \<^verbatim>\<open>false\<close> or \<^verbatim>\<open>null\<close> with \<open>rest\<close> still expected (its error
  phrase names the literal, not the byte that was expected).
\<close>

datatype 'g state =
    stateBeginValueOrEmpty
  | stateBeginValue
  | stateBeginStringOrEmpty
  | stateBeginString
  | stateEndValue "'g iface"
  | stateEndKey string
  | stateString strstate string
  | stateNumber numstate string
  | stateLiteral string string "'g iface"

text \<open>
  The scanner: still scanning, in a state and under a parse stack (head = innermost); or
  at the end of the top-level value (scanEnd); or failed (scanError).
\<close>

datatype 'g scanner =
    Scanning "'g state" "'g frame list"
  | scanEnd "'g iface"
  | scanError error

definition maxNestingDepth :: nat where
  "maxNestingDepth = 10000"

definition pushParseState ::
  "char \<Rightarrow> 'g frame \<Rightarrow> 'g state \<Rightarrow> 'g frame list \<Rightarrow> 'g scanner" where
  "pushParseState c newParseState successState parseState =
     (if length (newParseState # parseState) \<le> maxNestingDepth
      then Scanning successState (newParseState # parseState)
      else scanError (SyntaxError c ''exceeded max depth''))"

text \<open>
  The end of an object or array \<open>v\<close>, its frame popped. At the top level the value is
  complete at once: readValue does not wait for a further byte.
\<close>

definition popParseState :: "'g iface \<Rightarrow> 'g frame list \<Rightarrow> 'g scanner" where
  "popParseState v parseState =
     (if parseState = [] then scanEnd v else Scanning (stateEndValue v) parseState)"

text \<open>
  stateEndValue: the byte after the value \<open>v\<close>. With an empty parse stack the top-level
  value ended before this byte, whatever the byte is (stateEndTop answers scanEnd; the error
  it notes for a byte that is not a space would only show in a later step, which
  \<^verbatim>\<open>readValue\<close> does not take).
\<close>

fun endValue :: "'g iface \<Rightarrow> 'g frame list \<Rightarrow> char \<Rightarrow> 'g scanner" where
  "endValue v [] c = scanEnd v"
| "endValue v (parseObjectKey m # ps) c =
     (if isSpace c then Scanning (stateEndValue v) (parseObjectKey m # ps)
      else scanError (SyntaxError c ''after object key''))"
| "endValue v (parseObjectValue m k # ps) c =
     (if isSpace c then Scanning (stateEndValue v) (parseObjectValue m k # ps)
      else if c = CHR '','' then Scanning stateBeginString (parseObjectKey (AList.update k v m) # ps)
      else if c = CHR ''}'' then popParseState (VObject (AList.update k v m)) ps
      else scanError (SyntaxError c ''after object key:value pair''))"
| "endValue v (parseArrayValue es # ps) c =
     (if isSpace c then Scanning (stateEndValue v) (parseArrayValue es # ps)
      else if c = CHR '','' then Scanning stateBeginValue (parseArrayValue (es @ [v]) # ps)
      else if c = CHR '']'' then popParseState (VArray (es @ [v])) ps
      else scanError (SyntaxError c ''after array element''))"

text \<open>stateEndValue after an object key: only a colon may follow.\<close>

fun endKey :: "string \<Rightarrow> 'g frame list \<Rightarrow> char \<Rightarrow> 'g scanner" where
  "endKey k (parseObjectKey m # ps) c =
     (if isSpace c then Scanning (stateEndKey k) (parseObjectKey m # ps)
      else if c = CHR '':'' then Scanning stateBeginValue (parseObjectValue m k # ps)
      else scanError (SyntaxError c ''after object key''))"
| "endKey k ps c = scanError phasePanic"

text \<open>stateBeginValue, for a byte that is not a space.\<close>

definition beginValue :: "'g frame list \<Rightarrow> char \<Rightarrow> 'g scanner" where
  "beginValue ps c =
     (if c = CHR ''{'' then pushParseState c (parseObjectKey []) stateBeginStringOrEmpty ps
      else if c = CHR ''['' then pushParseState c (parseArrayValue []) stateBeginValueOrEmpty ps
      else if c = dquote then Scanning (stateString stateInString []) ps
      else if c = CHR ''-'' then Scanning (stateNumber stateNeg [c]) ps
      else if c = CHR ''0'' then Scanning (stateNumber state0 [c]) ps
      else if c = CHR ''t'' then Scanning (stateLiteral ''rue'' ''true'' (VBool True)) ps
      else if c = CHR ''f'' then Scanning (stateLiteral ''alse'' ''false'' (VBool False)) ps
      else if c = CHR ''n'' then Scanning (stateLiteral ''ull'' ''null'' VNil) ps
      else if isDigit19 c then Scanning (stateNumber state1 [c]) ps
      else scanError (SyntaxError c ''looking for beginning of value''))"

text \<open>
  The states of a numeric literal: the next state, the end of the literal (the byte belongs
  to what follows), or an error with its context phrase.
\<close>

datatype numstep = numContinue numstate | numEnd | numError string

definition state0_step :: "char \<Rightarrow> numstep" where
  "state0_step c =
     (if c = CHR ''.'' then numContinue stateDot
      else if c = CHR ''e'' \<or> c = CHR ''E'' then numContinue stateE
      else numEnd)"

definition stateESign_step :: "char \<Rightarrow> numstep" where
  "stateESign_step c =
     (if isDigit c then numContinue stateE0
      else numError ''in exponent of numeric literal'')"

fun number :: "numstate \<Rightarrow> char \<Rightarrow> numstep" where
  "number stateNeg c =
     (if c = CHR ''0'' then numContinue state0
      else if isDigit19 c then numContinue state1
      else numError ''in numeric literal'')"
| "number state1 c = (if isDigit c then numContinue state1 else state0_step c)"
| "number state0 c = state0_step c"
| "number stateDot c =
     (if isDigit c then numContinue stateDot0
      else numError ''after decimal point in numeric literal'')"
| "number stateDot0 c =
     (if isDigit c then numContinue stateDot0
      else if c = CHR ''e'' \<or> c = CHR ''E'' then numContinue stateE
      else numEnd)"
| "number stateE c =
     (if c = CHR ''+'' \<or> c = CHR ''-'' then numContinue stateESign else stateESign_step c)"
| "number stateESign c = stateESign_step c"
| "number stateE0 c = (if isDigit c then numContinue stateE0 else numEnd)"

text \<open>The states inside a string literal; \<open>Inl\<close> is an error with its context phrase.\<close>

definition hexContext :: string where
  "hexContext = ''in '' @ [backslash] @ ''u hexadecimal character escape''"

fun inString :: "strstate \<Rightarrow> char \<Rightarrow> string + strstate" where
  "inString stateInString c =
     (if c = backslash then Inr stateInStringEsc
      else if of_char c < (0x20 :: nat) then Inl ''in string literal''
      else Inr stateInString)"
| "inString stateInStringEsc c =
     (if c \<in> set ''bfnrt/'' \<or> c = backslash \<or> c = dquote then Inr stateInString
      else if c = CHR ''u'' then Inr stateInStringEscU
      else Inl ''in string escape code'')"
| "inString stateInStringEscU c =
     (if isHex c then Inr stateInStringEscU1 else Inl hexContext)"
| "inString stateInStringEscU1 c =
     (if isHex c then Inr stateInStringEscU12 else Inl hexContext)"
| "inString stateInStringEscU12 c =
     (if isHex c then Inr stateInStringEscU123 else Inl hexContext)"
| "inString stateInStringEscU123 c =
     (if isHex c then Inr stateInString else Inl hexContext)"

text \<open>The closing quote of a string literal: an object key, or a string value.\<close>

fun endString :: "string \<Rightarrow> 'g frame list \<Rightarrow> 'g scanner" where
  "endString raw (parseObjectKey m # ps) =
     (case unquote raw of
        None \<Rightarrow> scanError phasePanic
      | Some k \<Rightarrow> Scanning (stateEndKey k) (parseObjectKey m # ps))"
| "endString raw ps =
     (case unquote raw of
        None \<Rightarrow> scanError phasePanic
      | Some s \<Rightarrow> Scanning (stateEndValue (VString s)) ps)"

text \<open>One byte through the scanner.\<close>

fun step :: "'g scanner \<Rightarrow> char \<Rightarrow> 'g scanner" where
  "step (scanEnd v) c = scanEnd v"
| "step (scanError e) c = scanError e"
| "step (Scanning stateBeginValueOrEmpty ps) c =
     (if isSpace c then Scanning stateBeginValueOrEmpty ps
      else if c = CHR '']'' then
        (case ps of
           parseArrayValue es # ps' \<Rightarrow> popParseState (VArray es) ps'
         | _ \<Rightarrow> scanError phasePanic)
      else beginValue ps c)"
| "step (Scanning stateBeginValue ps) c =
     (if isSpace c then Scanning stateBeginValue ps else beginValue ps c)"
| "step (Scanning stateBeginStringOrEmpty ps) c =
     (if isSpace c then Scanning stateBeginStringOrEmpty ps
      else if c = CHR ''}'' then
        (case ps of
           parseObjectKey m # ps' \<Rightarrow> popParseState (VObject m) ps'
         | _ \<Rightarrow> scanError phasePanic)
      else if c = dquote then Scanning (stateString stateInString []) ps
      else scanError (SyntaxError c ''looking for beginning of object key string''))"
| "step (Scanning stateBeginString ps) c =
     (if isSpace c then Scanning stateBeginString ps
      else if c = dquote then Scanning (stateString stateInString []) ps
      else scanError (SyntaxError c ''looking for beginning of object key string''))"
| "step (Scanning (stateEndValue v) ps) c = endValue v ps c"
| "step (Scanning (stateEndKey k) ps) c = endKey k ps c"
| "step (Scanning (stateString ss raw) ps) c =
     (if ss = stateInString \<and> c = dquote then endString raw ps
      else
        (case inString ss c of
           Inl ctx \<Rightarrow> scanError (SyntaxError c ctx)
         | Inr ss' \<Rightarrow> Scanning (stateString ss' (raw @ [c])) ps))"
| "step (Scanning (stateNumber ns lit) ps) c =
     (case number ns c of
        numContinue ns' \<Rightarrow> Scanning (stateNumber ns' (lit @ [c])) ps
      | numEnd \<Rightarrow> endValue (VNumber lit) ps c
      | numError ctx \<Rightarrow> scanError (SyntaxError c ctx))"
| "step (Scanning (stateLiteral rest name v) ps) c =
     (case rest of
        [] \<Rightarrow> scanError phasePanic
      | x # rest' \<Rightarrow>
          if c \<noteq> x then scanError (SyntaxError c (''in literal '' @ name))
          else if rest' = [] then Scanning (stateEndValue v) ps
          else Scanning (stateLiteral rest' name v) ps)"

text \<open>The bytes of a chunk through the scanner, in order.\<close>

definition run :: "'g scanner \<Rightarrow> string \<Rightarrow> 'g scanner" where
  "run = foldl step"

subsection \<open>Reading: stream.go's readValue and refill over an in-memory reader\<close>

text \<open>
  The readers this file passes to the decoder are strings.Reader, bytes.Reader and
  *bytes.Buffer. Each is modelled by its unread bytes: \<^verbatim>\<open>Read(p)\<close> hands over at most
  \<^verbatim>\<open>len(p)\<close> of them and removes them from the reader, and reports io.EOF (with no bytes)
  once none are left.
\<close>

definition Read :: "nat \<Rightarrow> string \<Rightarrow> (string \<times> error option) \<times> string" where
  "Read n r = (if r = [] then (([], Some EOF), []) else ((take n r, None), drop n r))"

definition minRead :: nat where
  "minRead = 512"

text \<open>
  \<^verbatim>\<open>refill\<close>: the capacity left in the decoder's buffer after it has grown, that is how many
  bytes the next \<^verbatim>\<open>Read\<close> asks for. \<open>n\<close> is \<^verbatim>\<open>len(dec.buf)\<close> and \<open>free\<close> is
  \<^verbatim>\<open>cap(dec.buf) - len(dec.buf)\<close>; the grown capacity is \<^verbatim>\<open>2*cap(dec.buf) + minRead\<close>.
\<close>

definition refill :: "nat \<Rightarrow> nat \<Rightarrow> nat" where
  "refill n free = (if free < minRead then 2 * (n + free) + minRead - n else free)"

text \<open>
  \<^verbatim>\<open>readValue\<close>: \<open>scan\<close> is the scanner after the bytes \<open>buf\<close> read so far. The loop
  returns when the scanner is at the end of the value or has failed; else it refills from the
  reader \<open>r\<close> and scans what it got. An error of the read is looked at after that scan: at
  io.EOF a value that only waits for the byte after it (a top-level number, string or literal)
  is complete; otherwise the error is io.ErrUnexpectedEOF if a byte other than a space was
  read, io.EOF if not. The result is the decoded value or the error, and the reader as the
  decoder leaves it.
\<close>

definition readError :: "'g scanner \<Rightarrow> string \<Rightarrow> error \<Rightarrow> 'g result" where
  "readError scan buf err =
     (case scan of
        scanEnd v \<Rightarrow> (v, None)
      | scanError e \<Rightarrow> (VNil, Some e)
      | Scanning s ps \<Rightarrow>
          if err = EOF then
            (case step scan (CHR '' '') of
               scanEnd v \<Rightarrow> (v, None)
             | _ \<Rightarrow> (VNil, Some (if nonSpace buf then ErrUnexpectedEOF else EOF)))
          else (VNil, Some err))"

function readValue ::
  "'g scanner \<Rightarrow> string \<Rightarrow> nat \<Rightarrow> string \<Rightarrow> 'g result \<times> string" where
  "readValue scan buf free r =
     (case scan of
        scanEnd v \<Rightarrow> ((v, None), r)
      | scanError e \<Rightarrow> ((VNil, Some e), r)
      | Scanning s ps \<Rightarrow>
          (case Read (refill (length buf) free) r of
             ((p, Some err), r') \<Rightarrow> (readError (run scan p) (buf @ p) err, r')
           | ((p, None), r') \<Rightarrow>
               readValue (run scan p) (buf @ p) (refill (length buf) free - length p) r'))"
  by pat_completeness auto
termination
  by (relation "measure (\<lambda>(scan, buf, free, r). length r)")
     (auto simp: Read_def refill_def minRead_def split: if_splits)

declare readValue.simps [simp del]

text \<open>
  \<^verbatim>\<open>json.NewDecoder(r)\<close> starts with an empty buffer of capacity 0 and a scanner at the
  beginning of a value; \<^verbatim>\<open>Decode\<close> stores the value read in the target.
\<close>

definition Decode :: "string \<Rightarrow> 'g result \<times> string" where
  "Decode r = readValue (Scanning stateBeginValue []) [] 0 r"

section \<open>jsonLoader.go\<close>

subsection \<open>decodeJSONUsingNumber\<close>

text \<open>
  The reader argument is given by its unread bytes; the result is the pair the function
  returns, and the reader as the decoder leaves it. On an error the document is nil.
\<close>

definition decodeJSONUsingNumber :: "string \<Rightarrow> 'g result \<times> string" where
  "decodeJSONUsingNumber r =
     (case Decode r of
        ((document, Some err), r') \<Rightarrow> ((VNil, Some err), r')
      | ((document, None), r') \<Rightarrow> ((document, None), r'))"

subsection \<open>Buffers shared between a loader and its tee\<close>

text \<open>
  \<^verbatim>\<open>NewReaderLoader\<close> and \<^verbatim>\<open>NewWriterLoader\<close> allocate a \<^verbatim>\<open>bytes.Buffer\<close> and give its address
  both to the loader and to the tee they return, so the store of buffers is explicit: the
  unread bytes of the buffer at each address, and the next free address. \<^verbatim>\<open>Write\<close> appends
  to the unread bytes, \<^verbatim>\<open>String()\<close> returns them, and reading removes what is read.
\<close>

type_synonym addr = nat

record heap =
  buffers :: "addr \<Rightarrow> string"
  next_addr :: addr

definition new_Buffer :: "heap \<Rightarrow> addr \<times> heap" where
  "new_Buffer h =
     (next_addr h, h\<lparr>buffers := (buffers h)(next_addr h := []), next_addr := Suc (next_addr h)\<rparr>)"

definition Buffer_String :: "heap \<Rightarrow> addr \<Rightarrow> string" where
  "Buffer_String h b = buffers h b"

definition Buffer_Write :: "addr \<Rightarrow> string \<Rightarrow> heap \<Rightarrow> (nat \<times> error option) \<times> heap" where
  "Buffer_Write b p h = ((length p, None), h\<lparr>buffers := (buffers h)(b := buffers h b @ p)\<rparr>)"

text \<open>
  The caller's \<^verbatim>\<open>io.Writer\<close> and \<^verbatim>\<open>io.Reader\<close> are arbitrary: a state of any type with
  its \<^verbatim>\<open>Write\<close> (the count written, the error, the new state) or its \<^verbatim>\<open>Read\<close> (for a
  request of \<open>n\<close> bytes: the bytes delivered, the error, the new state).
\<close>

type_synonym 'w Writer = "'w \<Rightarrow> string \<Rightarrow> (nat \<times> error option) \<times> 'w"

type_synonym 'r Reader = "'r \<Rightarrow> nat \<Rightarrow> (string \<times> error option) \<times> 'r"

datatype 'w multiWriter = MultiWriter 'w addr

datatype 'r teeReader = TeeReader 'r addr

text \<open>
  \<^verbatim>\<open>io.MultiWriter(source, buf).Write(p)\<close>: each writer in turn; the first error or short
  write stops it, so the buffer only receives what the source accepted in full.
\<close>

definition multiWriter_Write ::
  "'w Writer \<Rightarrow> 'w multiWriter \<Rightarrow> string \<Rightarrow> heap
     \<Rightarrow> (nat \<times> error option) \<times> 'w multiWriter \<times> heap" where
  "multiWriter_Write wr mw p h =
     (case mw of MultiWriter w b \<Rightarrow>
        (case wr w p of
           ((n, Some err), w') \<Rightarrow> ((n, Some err), MultiWriter w' b, h)
         | ((n, None), w') \<Rightarrow>
             if n \<noteq> length p then ((n, Some ErrShortWrite), MultiWriter w' b, h)
             else
               (case Buffer_Write b p h of
                  ((n', Some err), h') \<Rightarrow> ((n', Some err), MultiWriter w' b, h')
                | ((n', None), h') \<Rightarrow>
                    if n' \<noteq> length p then ((n', Some ErrShortWrite), MultiWriter w' b, h')
                    else ((length p, None), MultiWriter w' b, h'))))"

text \<open>
  \<^verbatim>\<open>io.TeeReader(source, buf).Read(p)\<close> for \<^verbatim>\<open>len(p) = n\<close>: what the source delivers is
  written to the buffer before it is returned.
\<close>

definition teeReader_Read ::
  "'r Reader \<Rightarrow> 'r teeReader \<Rightarrow> nat \<Rightarrow> heap
     \<Rightarrow> (string \<times> error option) \<times> 'r teeReader \<times> heap" where
  "teeReader_Read rd t n h =
     (case t of TeeReader r b \<Rightarrow>
        (case rd r n of ((p, err), r') \<Rightarrow>
           if 0 < length p then
             (case Buffer_Write b p h of
                ((n', Some err'), h') \<Rightarrow> ((p, Some err'), TeeReader r' b, h')
              | ((n', None), h') \<Rightarrow> ((p, err), TeeReader r' b, h'))
           else ((p, err), TeeReader r' b, h)))"

subsection \<open>Reference identifiers\<close>

text \<open>
  Modelled from the spec: \<^verbatim>\<open>gojsonreference.NewJsonReference\<close>, of the package
  github.com/xeipuuv/gojsonreference, is called by every \<^verbatim>\<open>JsonReference\<close> method and is not
  among the repository's files. The spec: a reference identifier is "a URI-like string";
  "same-document loads
  always resolve to the fragment-only identifier (\<^verbatim>\<open>#\<close>)"; location-based loads "parse the
  supplied string as a URI/path"; the operation returns "an error if the source string cannot
  be parsed as a valid reference (location-based strategy only; all others never fail
  here)". Which location strings are well formed the spec leaves open, so that is the
  parameter \<open>wellFormed\<close>.
\<close>

datatype reference = Reference string

definition NewJsonReference ::
  "(string \<Rightarrow> bool) \<Rightarrow> string \<Rightarrow> reference \<times> error option" where
  "NewJsonReference wellFormed jsonReferenceString =
     (if jsonReferenceString = ''#'' \<or> wellFormed jsonReferenceString
      then (Reference jsonReferenceString, None)
      else (Reference [], Some (ReferenceError jsonReferenceString)))"

subsection \<open>The loaders and their factories\<close>

datatype JSONLoaderFactory = DefaultJSONLoaderFactory | FileSystemJSONLoaderFactory

text \<open>
  The six loader structs; each holds its \<^verbatim>\<open>source\<close> field, and \<open>jsonIOLoader\<close> the address
  of its buffer.
\<close>

datatype 'g JSONLoader =
    jsonReferenceLoader string
  | jsonStringLoader string
  | jsonBytesLoader string
  | jsonGoLoader "'g iface"
  | jsonIOLoader addr
  | jsonRawLoader "'g iface"

fun New :: "JSONLoaderFactory \<Rightarrow> string \<Rightarrow> 'g JSONLoader" where
  "New DefaultJSONLoaderFactory source = jsonReferenceLoader source"
| "New FileSystemJSONLoaderFactory source = jsonReferenceLoader source"

definition NewReferenceLoader :: "string \<Rightarrow> 'g JSONLoader" where
  "NewReferenceLoader source = jsonReferenceLoader source"

definition NewStringLoader :: "string \<Rightarrow> 'g JSONLoader" where
  "NewStringLoader source = jsonStringLoader source"

definition NewBytesLoader :: "string \<Rightarrow> 'g JSONLoader" where
  "NewBytesLoader source = jsonBytesLoader source"

definition NewGoLoader :: "'g iface \<Rightarrow> 'g JSONLoader" where
  "NewGoLoader source = jsonGoLoader source"

definition NewRawLoader :: "'g iface \<Rightarrow> 'g JSONLoader" where
  "NewRawLoader source = jsonRawLoader source"

definition NewReaderLoader :: "'r \<Rightarrow> heap \<Rightarrow> ('g JSONLoader \<times> 'r teeReader) \<times> heap" where
  "NewReaderLoader source h =
     (case new_Buffer h of (buf, h') \<Rightarrow> ((jsonIOLoader buf, TeeReader source buf), h'))"

definition NewWriterLoader :: "'w \<Rightarrow> heap \<Rightarrow> ('g JSONLoader \<times> 'w multiWriter) \<times> heap" where
  "NewWriterLoader source h =
     (case new_Buffer h of (buf, h') \<Rightarrow> ((jsonIOLoader buf, MultiWriter source buf), h'))"

text \<open>\<^verbatim>\<open>JsonSource()\<close>, by the loader's type; the I/O loader returns \<^verbatim>\<open>l.buf.String()\<close>.\<close>

fun JsonSource :: "heap \<Rightarrow> 'g JSONLoader \<Rightarrow> 'g iface" where
  "JsonSource h (jsonReferenceLoader source) = VString source"
| "JsonSource h (jsonStringLoader source) = VString source"
| "JsonSource h (jsonBytesLoader source) = VBytes source"
| "JsonSource h (jsonGoLoader source) = source"
| "JsonSource h (jsonIOLoader buf) = VString (Buffer_String h buf)"
| "JsonSource h (jsonRawLoader source) = source"

text \<open>
  \<^verbatim>\<open>LoadJSON()\<close>, by the loader's type. \<open>Marshal\<close> is \<^verbatim>\<open>json.Marshal\<close>, of the standard
  library: the bytes and the error it returns for a Go value. The string and bytes loaders
  read from a new reader over their source; the I/O loader passes its buffer itself, so what
  the decoder reads is gone from the buffer afterwards.
\<close>

fun LoadJSON ::
  "('g iface \<Rightarrow> string \<times> error option) \<Rightarrow> heap \<Rightarrow> 'g JSONLoader \<Rightarrow> 'g result \<times> heap" where
  "LoadJSON Marshal h (jsonReferenceLoader source) = ((VNil, None), h)"
| "LoadJSON Marshal h (jsonStringLoader source) = (fst (decodeJSONUsingNumber source), h)"
| "LoadJSON Marshal h (jsonBytesLoader source) = (fst (decodeJSONUsingNumber source), h)"
| "LoadJSON Marshal h (jsonGoLoader source) =
     (case Marshal source of
        (jsonBytes, Some err) \<Rightarrow> ((VNil, Some err), h)
      | (jsonBytes, None) \<Rightarrow> (fst (decodeJSONUsingNumber jsonBytes), h))"
| "LoadJSON Marshal h (jsonIOLoader buf) =
     (case decodeJSONUsingNumber (buffers h buf) of
        (res, r') \<Rightarrow> (res, h\<lparr>buffers := (buffers h)(buf := r')\<rparr>))"
| "LoadJSON Marshal h (jsonRawLoader source) = ((source, None), h)"

text \<open>\<^verbatim>\<open>JsonReference()\<close>, by the loader's type.\<close>

fun JsonReference ::
  "(string \<Rightarrow> bool) \<Rightarrow> 'g JSONLoader \<Rightarrow> reference \<times> error option" where
  "JsonReference wellFormed (jsonReferenceLoader source) = NewJsonReference wellFormed source"
| "JsonReference wellFormed (jsonStringLoader source) = NewJsonReference wellFormed ''#''"
| "JsonReference wellFormed (jsonBytesLoader source) = NewJsonReference wellFormed ''#''"
| "JsonReference wellFormed (jsonGoLoader source) = NewJsonReference wellFormed ''#''"
| "JsonReference wellFormed (jsonIOLoader buf) = NewJsonReference wellFormed ''#''"
| "JsonReference wellFormed (jsonRawLoader source) = NewJsonReference wellFormed ''#''"

text \<open>\<^verbatim>\<open>LoaderFactory()\<close>, by the loader's type.\<close>

fun LoaderFactory :: "'g JSONLoader \<Rightarrow> JSONLoaderFactory" where
  "LoaderFactory (jsonReferenceLoader source) = FileSystemJSONLoaderFactory"
| "LoaderFactory (jsonStringLoader source) = DefaultJSONLoaderFactory"
| "LoaderFactory (jsonBytesLoader source) = DefaultJSONLoaderFactory"
| "LoaderFactory (jsonGoLoader source) = DefaultJSONLoaderFactory"
| "LoaderFactory (jsonIOLoader buf) = DefaultJSONLoaderFactory"
| "LoaderFactory (jsonRawLoader source) = DefaultJSONLoaderFactory"

section \<open>Definitions for the statements\<close>

text \<open>A store in which no buffer has been allocated.\<close>

definition heap0 :: heap where
  "heap0 = \<lparr>buffers = (\<lambda>b. []), next_addr = 0\<rparr>"

text \<open>
  Two collaborators a caller may bring: a writer that accepts every write and keeps what it
  was given, and a reader over bytes in memory.
\<close>

definition sink :: "string Writer" where
  "sink w p = ((length p, None), w @ p)"

definition stringReader :: "string Reader" where
  "stringReader r n = Read n r"

text \<open>A \<^verbatim>\<open>json.Marshal\<close> that cannot serialise the value it is given.\<close>

definition noMarshal :: "unit iface \<Rightarrow> string \<times> error option" where
  "noMarshal g = ([], Some (UnsupportedTypeError ''func()''))"

text \<open>
  A caller writing the chunks \<open>ps\<close> through the duplicating writer, one \<^verbatim>\<open>Write\<close> each,
  until one fails; and a caller reading through the tee with requests of \<open>ns\<close> bytes, the
  bytes delivered being collected.
\<close>

fun writeAll ::
  "'w Writer \<Rightarrow> 'w multiWriter \<Rightarrow> string list \<Rightarrow> heap
     \<Rightarrow> error option \<times> 'w multiWriter \<times> heap" where
  "writeAll wr mw [] h = (None, mw, h)"
| "writeAll wr mw (p # ps) h =
     (case multiWriter_Write wr mw p h of
        ((n, Some err), mw', h') \<Rightarrow> (Some err, mw', h')
      | ((n, None), mw', h') \<Rightarrow> writeAll wr mw' ps h')"

fun readAll ::
  "'r Reader \<Rightarrow> 'r teeReader \<Rightarrow> nat list \<Rightarrow> heap \<Rightarrow> string \<times> 'r teeReader \<times> heap" where
  "readAll rd t [] h = ([], t, h)"
| "readAll rd t (n # ns) h =
     (case teeReader_Read rd t n h of
        ((p, err), t', h') \<Rightarrow>
          (case readAll rd t' ns h' of (ps, t'', h'') \<Rightarrow> (p @ ps, t'', h'')))"

text \<open>The streaming strategy is the I/O loader.\<close>

definition streaming :: "'g JSONLoader \<Rightarrow> bool" where
  "streaming l = (case l of jsonIOLoader buf \<Rightarrow> True | _ \<Rightarrow> False)"

text \<open>
  The numeric literals of RFC 8259, by their parts:
  number = [ minus ] int [ frac ] [ exp ], int = zero / ( digit1-9 *DIGIT ),
  frac = decimal-point 1*DIGIT, exp = e [ minus / plus ] 1*DIGIT.
\<close>

definition intPart :: "string \<Rightarrow> bool" where
  "intPart i =
     (case i of
        [] \<Rightarrow> False
      | d # ds \<Rightarrow> (d = CHR ''0'' \<and> ds = []) \<or> (isDigit19 d \<and> list_all isDigit ds))"

definition fracPart :: "string \<Rightarrow> bool" where
  "fracPart f =
     (case f of [] \<Rightarrow> True | c # ds \<Rightarrow> c = CHR ''.'' \<and> ds \<noteq> [] \<and> list_all isDigit ds)"

definition expPart :: "string \<Rightarrow> bool" where
  "expPart e =
     (case e of
        [] \<Rightarrow> True
      | c # r \<Rightarrow>
          (c = CHR ''e'' \<or> c = CHR ''E'') \<and>
          (case r of
             [] \<Rightarrow> False
           | s # ds \<Rightarrow>
               if s = CHR ''+'' \<or> s = CHR ''-'' then ds \<noteq> [] \<and> list_all isDigit ds
               else list_all isDigit r))"

definition numberLiteral :: "string \<Rightarrow> string \<Rightarrow> string \<Rightarrow> string \<Rightarrow> bool" where
  "numberLiteral neg i f e =
     ((neg = [] \<or> neg = ''-'') \<and> intPart i \<and> fracPart f \<and> expPart e)"

text \<open>
  Whole numeric literals, recognised by splitting a string into the four parts; and the
  bytes that cannot continue a numeric literal.
\<close>

definition numberParts :: "string \<Rightarrow> string \<times> string \<times> string \<times> string" where
  "numberParts s =
     (let neg = (if s \<noteq> [] \<and> hd s = CHR ''-'' then ''-'' else []);
          r1 = drop (length neg) s;
          i = (if r1 \<noteq> [] \<and> hd r1 = CHR ''0'' then ''0'' else takeWhile isDigit r1);
          r2 = drop (length i) r1;
          f = (if r2 \<noteq> [] \<and> hd r2 = CHR ''.'' then CHR ''.'' # takeWhile isDigit (tl r2) else []);
          e = drop (length f) r2
      in (neg, i, f, e))"

definition isNumber :: "string \<Rightarrow> bool" where
  "isNumber s = (case numberParts s of (neg, i, f, e) \<Rightarrow> numberLiteral neg i f e)"

definition endsLiteral :: "char \<Rightarrow> bool" where
  "endsLiteral c = (\<not> isDigit c \<and> c \<noteq> CHR ''.'' \<and> c \<noteq> CHR ''e'' \<and> c \<noteq> CHR ''E'')"

text \<open>
  JSON documents and their compact text. A document is well formed when it is built from
  null, booleans, numbers, strings, arrays and objects only, every number is a numeric literal
  of the grammar, every string and key consists of printable ASCII other than the quote and
  the backslash (so its text needs no escape), and the keys of each object are distinct.
  \<open>render\<close> writes a document without white space, a number as its literal. \<open>depth\<close>
  counts the arrays and objects around the innermost value. \<open>follows v c\<close> says that the
  byte \<open>c\<close> may stand right after the text of \<open>v\<close> without becoming part of it.
\<close>

definition plainChar :: "char \<Rightarrow> bool" where
  "plainChar c =
     ((0x20 :: nat) \<le> of_char c \<and> of_char c < (0x80 :: nat) \<and> c \<noteq> dquote \<and> c \<noteq> backslash)"

fun commaSep :: "string list \<Rightarrow> string" where
  "commaSep [] = []"
| "commaSep [x] = x"
| "commaSep (x # y # ys) = x @ '','' @ commaSep (y # ys)"

fun render :: "'g iface \<Rightarrow> string" where
  "render VNil = ''null''"
| "render (VBool b) = (if b then ''true'' else ''false'')"
| "render (VNumber n) = n"
| "render (VString s) = dquote # s @ [dquote]"
| "render (VBytes b) = []"
| "render (VNative g) = []"
| "render (VArray vs) = ''['' @ commaSep (map render vs) @ '']''"
| "render (VObject m) =
     ''{'' @ commaSep (map (\<lambda>(k, v). dquote # k @ [dquote] @ '':'' @ render v) m) @ ''}''"

fun isDocument :: "'g iface \<Rightarrow> bool" where
  "isDocument VNil = True"
| "isDocument (VBool b) = True"
| "isDocument (VNumber n) = isNumber n"
| "isDocument (VString s) = list_all plainChar s"
| "isDocument (VBytes b) = False"
| "isDocument (VNative g) = False"
| "isDocument (VArray vs) = list_all isDocument vs"
| "isDocument (VObject m) =
     (distinct (map fst m) \<and> list_all (\<lambda>(k, v). list_all plainChar k \<and> isDocument v) m)"

fun depth :: "'g iface \<Rightarrow> nat" where
  "depth (VArray vs) = Suc (foldr max (map depth vs) 0)"
| "depth (VObject m) = Suc (foldr max (map (\<lambda>(k, v). depth v) m) 0)"
| "depth v = 0"

fun follows :: "'g iface \<Rightarrow> char \<Rightarrow> bool" where
  "follows (VNumber n) c = endsLiteral c"
| "follows v c = True"




definition hexDigit :: "char \<Rightarrow> bool" where
  "hexDigit c = (c \<in> set ''0123456789ABCDEFabcdef'')"

definition escapeChar :: "char \<Rightarrow> bool" where
  "escapeChar e =
     (e \<in> set [dquote, backslash, CHR ''/'', CHR ''b'', CHR ''f'', CHR ''n'', CHR ''r'', CHR ''t''])"

function stringChars :: "string \<Rightarrow> bool" where
  "stringChars [] = True"
| "stringChars (c # s) =
     (if c = backslash then
        (case s of
           [] \<Rightarrow> False
         | e # s' \<Rightarrow>
             if e = CHR ''u''
             then 4 \<le> length s' \<and> list_all hexDigit (take 4 s') \<and> stringChars (drop 4 s')
             else escapeChar e \<and> stringChars s')
      else c \<noteq> dquote \<and> (0x20 :: nat) \<le> of_char c \<and> stringChars s)"
  by pat_completeness auto
termination
  by (relation "measure length") auto


text \<open>
  A JSON text as the tree of its grammar. \<open>JNumber\<close> and \<open>JString\<close> carry the bytes of
  the literal (for a string, those between the quotes). \<open>JWs w1 t w2\<close> is the value \<open>t\<close>
  with white space \<open>w1\<close> before and \<open>w2\<close> after it, which the grammar allows around every
  value; \<open>JArray w ts\<close> and \<open>JObject w ms\<close> have the white space \<open>w\<close> after the opening
  bracket, which is all there is between the brackets when there are no elements. A member
  of an object is a key, \<open>Key w1 k w2\<close> being the string literal \<open>k\<close> with white space
  before it and between it and the colon, and a value.
\<close>

datatype key = Key string string string

datatype jsonText =
    JNull
  | JBool bool
  | JNumber string
  | JString string
  | JArray string "jsonText list"
  | JObject string "(key \<times> jsonText) list"
  | JWs string jsonText string








text \<open>
  \<open>delimits t c\<close>: the byte \<open>c\<close> may stand right after the text \<open>t\<close> without becoming
  part of it. \<open>nested n t\<close> is \<open>t\<close> inside \<open>n\<close> arrays of one element.
\<close>

fun delimits :: "jsonText \<Rightarrow> char \<Rightarrow> bool" where
  "delimits (JNumber n) c = endsLiteral c"
| "delimits (JWs w1 t w2) c = (if w2 = [] then delimits t c else True)"
| "delimits t c = True"






text \<open>
  Devices of the proofs. \<open>atEOF scan buf\<close> is what \<open>readValue\<close> returns for a scanner
  \<open>scan\<close> that has seen all the bytes \<open>buf\<close> of the reader. \<open>numrun ns s\<close> follows the
  states of a numeric literal through the bytes \<open>s\<close>, as long as the literal continues.
  \<open>valuePosition ps\<close> holds of a parse stack under which a value, not an object key, is
  expected. \<open>member\<close> and \<open>memberText\<close> are the text of one member of an object, and
  \<open>setMember\<close> enters one member into the members read so far.
\<close>

fun valuePosition :: "'g frame list \<Rightarrow> bool" where
  "valuePosition (parseObjectKey m # ps) = False"
| "valuePosition ps = True"

definition member :: "string \<times> 'g iface \<Rightarrow> string" where
  "member kv = dquote # fst kv @ [dquote] @ '':'' @ render (snd kv)"



definition atEOF :: "'g scanner \<Rightarrow> string \<Rightarrow> 'g result" where
  "atEOF scan buf = readError scan buf EOF"

fun numrun :: "numstate \<Rightarrow> string \<Rightarrow> numstate option" where
  "numrun ns [] = Some ns"
| "numrun ns (c # cs) =
     (case number ns c of numContinue ns' \<Rightarrow> numrun ns' cs | _ \<Rightarrow> None)"

section \<open>The decoder's result does not depend on how the bytes arrive\<close>

lemma run_Nil [simp]: "run scan [] = scan"
  by (simp add: run_def)

lemma run_Cons [simp]: "run scan (c # cs) = run (step scan c) cs"
  by (simp add: run_def)

lemma run_append: "run scan (xs @ ys) = run (run scan xs) ys"
  by (simp add: run_def)

lemma run_scanEnd [simp]: "run (scanEnd v) cs = scanEnd v"
  by (induction cs) simp_all

lemma run_scanError [simp]: "run (scanError e) cs = scanError e"
  by (induction cs) simp_all

text \<open>
  However \<open>refill\<close> cuts the reader's bytes into chunks, \<open>readValue\<close> returns what the
  scanner says after all of them.
\<close>

lemma readValue_atEOF:
  "fst (readValue scan buf free r) = atEOF (run scan r) (buf @ r)"
proof (induction scan buf free r rule: readValue.induct)
  case (1 scan buf free r)
  show ?case
  proof (cases scan)
    case (Scanning s ps)
    let ?k = "refill (length buf) free"
    show ?thesis
    proof (cases "r = []")
      case True
      then show ?thesis
        unfolding Scanning
        by (simp add: readValue.simps [of "Scanning s ps"] Read_def atEOF_def)
    next
      case False
      then have rd: "Read ?k r = ((take ?k r, None), drop ?k r)"
        by (simp add: Read_def)
      have "fst (readValue scan buf free r)
            = fst (readValue (run scan (take ?k r)) (buf @ take ?k r)
                     (?k - length (take ?k r)) (drop ?k r))"
        unfolding Scanning
        by (simp add: readValue.simps [of "Scanning s ps" buf free r] rd)
      also have "\<dots> = atEOF (run (run scan (take ?k r)) (drop ?k r))
                        ((buf @ take ?k r) @ drop ?k r)"
        using "1.IH" [OF Scanning rd [symmetric] refl refl] .
      also have "\<dots> = atEOF (run scan r) (buf @ r)"
        by (simp add: run_append [symmetric])
      finally show ?thesis .
    qed
  next
    case (scanEnd v)
    show ?thesis
      unfolding scanEnd
      by (simp add: readValue.simps [of "scanEnd v"] atEOF_def readError_def)
  next
    case (scanError e)
    show ?thesis
      unfolding scanError
      by (simp add: readValue.simps [of "scanError e"] atEOF_def readError_def)
  qed
qed

lemma atEOF_cases:
  "atEOF scan buf =
     (case scan of
        scanEnd v \<Rightarrow> (v, None)
      | scanError e \<Rightarrow> (VNil, Some e)
      | Scanning s ps \<Rightarrow>
          (case step scan (CHR '' '') of
             scanEnd v \<Rightarrow> (v, None)
           | _ \<Rightarrow> (VNil, Some (if nonSpace buf then ErrUnexpectedEOF else EOF))))"
  by (simp add: atEOF_def readError_def)

lemma decode_atEOF:
  "fst (decodeJSONUsingNumber r) =
     (case atEOF (run (Scanning stateBeginValue []) r) r of
        (document, Some err) \<Rightarrow> (VNil, Some err)
      | (document, None) \<Rightarrow> (document, None))"
proof -
  have "fst (Decode r :: 'a result \<times> string) = atEOF (run (Scanning stateBeginValue []) r) r"
    using readValue_atEOF [of "Scanning stateBeginValue []" "[]" 0 r] by (simp add: Decode_def)
  then show ?thesis
    by (cases "Decode r :: 'a result \<times> string")
       (auto simp: decodeJSONUsingNumber_def split: option.splits prod.splits)
qed

lemmas scan_simps = isSpace_def beginValue_def pushParseState_def maxNestingDepth_def
  dquote_def backslash_def isDigit_def isDigit19_def popParseState_def state0_step_def

lemma decode_object_a1:
  \<open>(decodeJSONUsingNumber ''{"a":1}'' :: 'g result \<times> string)
     = ((VObject [(''a'', VNumber ''1'')], None), [])\<close>
  by (simp add: decodeJSONUsingNumber_def Decode_def readValue.simps Read_def refill_def
      minRead_def scan_simps)

lemma decode_empty:
  "(decodeJSONUsingNumber [] :: 'g result \<times> string) = ((VNil, Some EOF), [])"
  by (simp add: decodeJSONUsingNumber_def Decode_def readValue.simps Read_def readError_def
      refill_def minRead_def scan_simps nonSpace_def)

section \<open>Numeric literals through the scanner\<close>

text \<open>
  A literal of the grammar takes the scanner from the beginning of a value, under any parse
  stack, to a state in which the literal may end, with exactly the bytes of the literal
  collected.
\<close>

lemma numrun_append:
  "numrun ns (a @ b) = (case numrun ns a of None \<Rightarrow> None | Some ns' \<Rightarrow> numrun ns' b)"
  by (induction a arbitrary: ns) (auto split: numstep.splits)

lemma numrun_digits:
  "list_all isDigit ds \<Longrightarrow> ns \<in> {state1, stateDot0, stateE0} \<Longrightarrow> numrun ns ds = Some ns"
  by (induction ds) auto

lemma run_numrun:
  "numrun ns s = Some ns' \<Longrightarrow>
   run (Scanning (stateNumber ns lit) ps) s = Scanning (stateNumber ns' (lit @ s)) ps"
  by (induction s arbitrary: ns lit) (auto split: numstep.splits)

lemma numrun_int:
  "intPart i \<Longrightarrow> \<exists>ns. numrun stateNeg i = Some ns \<and> ns \<in> {state0, state1}"
  by (cases i) (auto simp: intPart_def isDigit19_def numrun_digits)

lemma numrun_frac:
  assumes "fracPart f" and "ns \<in> {state0, state1}"
  shows "\<exists>ns'. numrun ns f = Some ns' \<and> ns' \<in> {state0, state1, stateDot0}"
proof (cases f)
  case Nil
  with assms(2) show ?thesis by auto
next
  case (Cons c ds)
  with assms obtain d ds' where ds: "ds = d # ds'" "isDigit d" "list_all isDigit ds'" "c = CHR ''.''"
    by (cases ds) (auto simp: fracPart_def)
  then have "numrun stateDot ds = Some stateDot0"
    by (simp add: numrun_digits)
  with ds Cons \<open>ns \<in> {state0, state1}\<close> show ?thesis
    by (auto simp: state0_step_def isDigit_def)
qed

lemma digits_exp:
  "ds \<noteq> [] \<Longrightarrow> list_all isDigit ds \<Longrightarrow> numrun stateESign ds = Some stateE0"
  by (cases ds) (auto simp: stateESign_step_def numrun_digits)

lemma digits_exp':
  "ds \<noteq> [] \<Longrightarrow> list_all isDigit ds \<Longrightarrow> numrun stateE ds = Some stateE0"
  by (cases ds) (auto simp: stateESign_step_def numrun_digits isDigit_def)

lemma numrun_exp:
  assumes e: "expPart e" and ns: "ns \<in> {state0, state1, stateDot0}"
  shows "\<exists>ns'. numrun ns e = Some ns' \<and> ns' \<in> {state0, state1, stateDot0, stateE0}"
proof (cases e)
  case Nil
  with ns show ?thesis by auto
next
  case (Cons c r)
  from e Cons have c: "c = CHR ''e'' \<or> c = CHR ''E''" and r: "r \<noteq> []"
    by (auto simp: expPart_def split: list.splits)
  from c ns have st: "number ns c = numContinue stateE"
    by (auto simp: state0_step_def isDigit_def)
  from r obtain s ds where rs: "r = s # ds" by (cases r) auto
  have "numrun stateE r = Some stateE0"
  proof (cases "s = CHR ''+'' \<or> s = CHR ''-''")
    case True
    with e Cons rs have "ds \<noteq> []" "list_all isDigit ds"
      by (auto simp: expPart_def)
    then have "numrun stateESign ds = Some stateE0" by (rule digits_exp)
    with True rs show ?thesis by auto
  next
    case False
    with e Cons rs have "list_all isDigit r"
      by (auto simp: expPart_def)
    with r show ?thesis by (simp add: digits_exp')
  qed
  with st Cons show ?thesis by simp
qed

lemma numrun_literal:
  assumes "intPart i" "fracPart f" "expPart e"
  shows "\<exists>ns. numrun stateNeg (i @ f @ e) = Some ns \<and> ns \<in> {state0, state1, stateDot0, stateE0}"
proof -
  from numrun_int [OF assms(1)] obtain n1 where n1: "numrun stateNeg i = Some n1" "n1 \<in> {state0, state1}"
    by blast
  from numrun_frac [OF assms(2) n1(2)] obtain n2 where n2: "numrun n1 f = Some n2" "n2 \<in> {state0, state1, stateDot0}"
    by blast
  from numrun_exp [OF assms(3) n2(2)] obtain n3 where n3: "numrun n2 e = Some n3" "n3 \<in> {state0, state1, stateDot0, stateE0}"
    by blast
  from n1 n2 n3 show ?thesis by (simp add: numrun_append)
qed

lemma begin_minus:
  "step (Scanning stateBeginValue ps) (CHR ''-'') = Scanning (stateNumber stateNeg ''-'') ps"
  by (simp add: scan_simps)

lemma begin_digit:
  "isDigit c \<Longrightarrow> number stateNeg c = numContinue ns \<Longrightarrow>
   step (Scanning stateBeginValue ps) c = Scanning (stateNumber ns [c]) ps"
  by (auto simp: scan_simps split: if_splits)

lemma intPart_hd: "intPart i \<Longrightarrow> \<exists>d ds. i = d # ds \<and> isDigit d"
  by (cases i) (auto simp: intPart_def isDigit_def isDigit19_def)

lemma run_number_literal:
  assumes "numberLiteral neg i f e"
  shows "\<exists>ns. run (Scanning stateBeginValue ps) (neg @ i @ f @ e)
               = Scanning (stateNumber ns (neg @ i @ f @ e)) ps
             \<and> ns \<in> {state0, state1, stateDot0, stateE0}"
proof -
  from assms have parts: "intPart i" "fracPart f" "expPart e" and m: "neg = [] \<or> neg = ''-''"
    by (auto simp: numberLiteral_def)
  from numrun_literal [OF parts] obtain ns where
    ns: "numrun stateNeg (i @ f @ e) = Some ns" "ns \<in> {state0, state1, stateDot0, stateE0}"
    by blast
  from m show ?thesis
  proof
    assume "neg = ''-''"
    then have "run (Scanning stateBeginValue ps) (neg @ i @ f @ e)
               = run (Scanning (stateNumber stateNeg ''-'') ps) (i @ f @ e)"
      by (simp del: step.simps add: begin_minus)
    also have "\<dots> = Scanning (stateNumber ns (''-'' @ i @ f @ e)) ps"
      by (rule run_numrun [OF ns(1)])
    finally show ?thesis using ns(2) \<open>neg = ''-''\<close> by auto
  next
    assume "neg = []"
    from intPart_hd [OF parts(1)] obtain d ds where i: "i = d # ds" "isDigit d" by blast
    with ns(1) obtain n0 where n0: "number stateNeg d = numContinue n0" "numrun n0 (ds @ f @ e) = Some ns"
      by (auto split: numstep.splits)
    have "run (Scanning stateBeginValue ps) (neg @ i @ f @ e)
          = run (Scanning (stateNumber n0 [d]) ps) (ds @ f @ e)"
      using \<open>neg = []\<close> i begin_digit [OF i(2) n0(1), of ps] by (simp del: step.simps)
    also have "\<dots> = Scanning (stateNumber ns ([d] @ ds @ f @ e)) ps"
      by (rule run_numrun [OF n0(2)])
    finally show ?thesis using ns(2) \<open>neg = []\<close> i by auto
  qed
qed

section \<open>Printed documents through the scanner\<close>

text \<open>
  The text of a well-formed document, followed by a byte that may follow it, takes the
  scanner from the beginning of a value to the point after that value, with the document
  itself as the value read.
\<close>

lemma numberParts_concat:
  assumes "numberParts s = (neg, i, f, e)"
  shows "s = neg @ i @ f @ e"
proof -
  define neg' where "neg' = (if s \<noteq> [] \<and> hd s = CHR ''-'' then ''-'' else [])"
  define r1 where "r1 = drop (length neg') s"
  define i' where "i' = (if r1 \<noteq> [] \<and> hd r1 = CHR ''0'' then ''0'' else takeWhile isDigit r1)"
  define r2 where "r2 = drop (length i') r1"
  define f' where
    "f' = (if r2 \<noteq> [] \<and> hd r2 = CHR ''.'' then CHR ''.'' # takeWhile isDigit (tl r2) else [])"
  define e' where "e' = drop (length f') r2"
  have "numberParts s = (neg', i', f', e')"
    unfolding numberParts_def Let_def neg'_def r1_def i'_def r2_def f'_def e'_def ..
  with assms have eq: "neg = neg'" "i = i'" "f = f'" "e = e'"
    by simp_all
  have 1: "s = neg' @ r1"
    unfolding r1_def neg'_def by (cases s) auto
  have 2: "r1 = i' @ r2"
    unfolding r2_def i'_def by (cases r1) (auto simp: dropWhile_eq_drop [symmetric])
  have "take (length f') r2 = f'"
    unfolding f'_def by (cases r2) (auto simp: takeWhile_eq_take [symmetric])
  then have 3: "r2 = f' @ e'"
    unfolding e'_def by (metis append_take_drop_id)
  from 1 2 3 show ?thesis unfolding eq by simp
qed

lemma isNumber_parts:
  assumes "isNumber s"
  shows "\<exists>neg i f e. numberLiteral neg i f e \<and> s = neg @ i @ f @ e"
proof -
  obtain neg i f e where np: "numberParts s = (neg, i, f, e)"
    by (cases "numberParts s") auto
  with assms have "numberLiteral neg i f e"
    by (simp add: isNumber_def)
  with numberParts_concat [OF np] show ?thesis by blast
qed

lemma number_delim:
  "ns \<in> {state0, state1, stateDot0, stateE0} \<Longrightarrow> endsLiteral c \<Longrightarrow> number ns c = numEnd"
  by (auto simp: endsLiteral_def state0_step_def)

lemma follows_delim [simp]:
  "follows v (CHR '','')" "follows v (CHR '']'')" "follows v (CHR ''}'')" "follows v (CHR '' '')"
  by (cases v; simp add: endsLiteral_def isDigit_def)+

lemma run_number_value:
  assumes "isNumber lit" and "endsLiteral c"
  shows "run (Scanning stateBeginValue ps) (lit @ c # rest) = run (endValue (VNumber lit) ps c) rest"
proof -
  from isNumber_parts [OF assms(1)] obtain neg i f e where
    nl: "numberLiteral neg i f e" and lit: "lit = neg @ i @ f @ e"
    by blast
  from run_number_literal [OF nl, of ps] obtain ns where
    ns: "run (Scanning stateBeginValue ps) lit = Scanning (stateNumber ns lit) ps"
        "ns \<in> {state0, state1, stateDot0, stateE0}"
    unfolding lit by blast
  have "run (Scanning stateBeginValue ps) (lit @ c # rest)
        = run (step (run (Scanning stateBeginValue ps) lit) c) rest"
    by (simp add: run_append)
  also have "\<dots> = run (endValue (VNumber lit) ps c) rest"
    unfolding ns(1) using number_delim [OF ns(2) assms(2)] by simp
  finally show ?thesis .
qed

lemma plainChar_inString:
  "plainChar c \<Longrightarrow> c \<noteq> dquote \<and> inString stateInString c = Inr stateInString"
  by (simp add: plainChar_def)

lemma run_plain:
  "list_all plainChar k \<Longrightarrow>
   run (Scanning (stateString stateInString raw) ps) k
     = Scanning (stateString stateInString (raw @ k)) ps"
  by (induction k arbitrary: raw) (auto dest: plainChar_inString)

lemma unquote_plain: "list_all plainChar k \<Longrightarrow> unquote k = Some k"
  by (induction k) (auto simp: plainChar_def)

lemma run_string:
  assumes "list_all plainChar k"
  shows "run (Scanning (stateString stateInString []) ps) (k @ dquote # rest)
         = run (endString k ps) rest"
proof -
  have "run (Scanning (stateString stateInString []) ps) (k @ dquote # rest)
        = run (step (Scanning (stateString stateInString k) ps) dquote) rest"
    using run_plain [OF assms, of "[]" ps] by (simp add: run_append)
  then show ?thesis by simp
qed

lemma popParseState_endValue:
  "step (popParseState v ps) c = endValue v ps c"
  by (cases ps) (simp_all add: popParseState_def)

lemma update_fresh:
  "k \<notin> fst ` set m \<Longrightarrow> AList.update k v m = m @ [(k, v)]"
  by (induction m) auto

lemma commaSep_Cons: "xs \<noteq> [] \<Longrightarrow> commaSep (x # xs) = x @ '','' @ commaSep xs"
  by (cases xs) simp_all

lemma isNumber_first:
  assumes "isNumber n"
  shows "\<exists>ch r. n = ch # r \<and> (ch = CHR ''-'' \<or> isDigit ch)"
proof -
  from isNumber_parts [OF assms] obtain neg i f e where
    nl: "numberLiteral neg i f e" and n: "n = neg @ i @ f @ e"
    by blast
  from nl have "neg = [] \<or> neg = ''-''" and "intPart i"
    by (simp_all add: numberLiteral_def)
  with intPart_hd [of i] n show ?thesis by auto
qed

lemma render_first:
  assumes "isDocument v"
  shows "\<exists>ch r. render v = ch # r \<and> \<not> isSpace ch \<and> ch \<noteq> CHR '']''"
proof (cases v)
  case (VNumber n)
  with assms isNumber_first [of n] show ?thesis
    by (auto simp: isSpace_def isDigit_def)
qed (use assms in \<open>auto simp: isSpace_def dquote_def\<close>)

lemma run_elements:
  assumes IH: "\<And>x ps c rest. x \<in> set (vs :: 'g iface list) \<Longrightarrow> valuePosition ps \<Longrightarrow> follows x c \<Longrightarrow>
                 depth x + length ps \<le> maxNestingDepth \<Longrightarrow>
                 run (Scanning stateBeginValue ps) (render x @ c # rest) = run (endValue x ps c) rest"
      and ne: "vs \<noteq> []"
      and d: "\<And>x. x \<in> set vs \<Longrightarrow> depth x + Suc (length ps) \<le> maxNestingDepth"
  shows "run (Scanning stateBeginValue (parseArrayValue es # ps))
           (commaSep (map render vs) @ CHR '']'' # rest)
         = run (popParseState (VArray (es @ vs)) ps) rest"
  using ne IH d
proof (induction vs arbitrary: es rule: list_nonempty_induct)
  case (single x)
  have "run (Scanning stateBeginValue (parseArrayValue es # ps)) (render x @ CHR '']'' # rest)
        = run (endValue x (parseArrayValue es # ps) (CHR '']'')) rest"
    by (rule single(1)) (use single(2) [of x] in \<open>simp_all\<close>)
  then show ?case by (simp add: isSpace_def)
next
  case (cons x xs)
  have "run (Scanning stateBeginValue (parseArrayValue es # ps))
          (render x @ CHR '','' # (commaSep (map render xs) @ CHR '']'' # rest))
        = run (endValue x (parseArrayValue es # ps) (CHR '','')) (commaSep (map render xs) @ CHR '']'' # rest)"
    by (rule cons(3)) (use cons(4) [of x] in \<open>simp_all\<close>)
  also have "\<dots> = run (Scanning stateBeginValue (parseArrayValue (es @ [x]) # ps))
                      (commaSep (map render xs) @ CHR '']'' # rest)"
    by (simp add: isSpace_def)
  also have "\<dots> = run (popParseState (VArray ((es @ [x]) @ xs)) ps) rest"
  proof (rule cons(2))
    fix y and ps' :: "'g frame list" and c' rest'
    assume "y \<in> set xs" "valuePosition ps'" "follows y c'" "depth y + length ps' \<le> maxNestingDepth"
    then show "run (Scanning stateBeginValue ps') (render y @ c' # rest')
               = run (endValue y ps' c') rest'"
      using cons(3) [of y ps' c' rest'] by simp
  next
    fix y
    assume "y \<in> set xs"
    then show "depth y + Suc (length ps) \<le> maxNestingDepth" using cons(4) [of y] by simp
  qed
  finally show ?case
    using cons(1) by (simp add: commaSep_Cons)
qed

lemma run_member:
  assumes IH: "\<And>ps c rest. valuePosition ps \<Longrightarrow> follows v c \<Longrightarrow>
                 depth v + length ps \<le> maxNestingDepth \<Longrightarrow>
                 run (Scanning stateBeginValue ps) (render v @ c # rest) = run (endValue v ps c) rest"
      and k: "list_all plainChar k"
      and st: "st = stateBeginString \<or> st = stateBeginStringOrEmpty"
      and c: "follows v c"
      and d: "depth v + Suc (length ps) \<le> maxNestingDepth"
  shows "run (Scanning st (parseObjectKey built # ps)) (member (k, v) @ c # rest)
         = run (endValue v (parseObjectValue built k # ps) c) rest"
proof -
  have "run (Scanning st (parseObjectKey built # ps)) (member (k, v) @ c # rest)
        = run (Scanning (stateString stateInString []) (parseObjectKey built # ps))
            (k @ dquote # CHR '':'' # render v @ c # rest)"
    using st by (auto simp: member_def isSpace_def dquote_def)
  also have "\<dots> = run (endString k (parseObjectKey built # ps)) (CHR '':'' # render v @ c # rest)"
    by (rule run_string [OF k])
  also have "\<dots> = run (Scanning stateBeginValue (parseObjectValue built k # ps)) (render v @ c # rest)"
    by (simp add: unquote_plain [OF k] isSpace_def)
  also have "\<dots> = run (endValue v (parseObjectValue built k # ps) c) rest"
    by (rule IH) (use c d in simp_all)
  finally show ?thesis .
qed

lemma run_members:
  assumes ne: "(m :: (string \<times> 'g iface) list) \<noteq> []"
      and IH: "\<And>k v ps c rest. (k, v) \<in> set m \<Longrightarrow> valuePosition ps \<Longrightarrow> follows v c \<Longrightarrow>
                 depth v + length ps \<le> maxNestingDepth \<Longrightarrow>
                 run (Scanning stateBeginValue ps) (render v @ c # rest) = run (endValue v ps c) rest"
      and keys: "\<And>k v. (k, v) \<in> set m \<Longrightarrow> list_all plainChar k"
      and fresh: "distinct (map fst (built @ m))"
      and st: "st = stateBeginString \<or> st = stateBeginStringOrEmpty"
      and d: "\<And>k v. (k, v) \<in> set m \<Longrightarrow> depth v + Suc (length ps) \<le> maxNestingDepth"
  shows "run (Scanning st (parseObjectKey built # ps))
           (commaSep (map member m) @ CHR ''}'' # rest)
         = run (popParseState (VObject (built @ m)) ps) rest"
  using ne IH keys fresh st d
proof (induction m arbitrary: built st rule: list_nonempty_induct)
  case (single kv)
  obtain k v where kv: "kv = (k, v)" by (cases kv)
  have fr: "k \<notin> fst ` set built"
    using single(3) kv by auto
  have iv: "\<And>ps c rest. valuePosition ps \<Longrightarrow> follows v c \<Longrightarrow>
              depth v + length ps \<le> maxNestingDepth \<Longrightarrow>
              run (Scanning stateBeginValue ps) (render v @ c # rest) = run (endValue v ps c) rest"
    using single(1) [of k v] kv by simp
  have pk: "list_all plainChar k" and dv: "depth v + Suc (length ps) \<le> maxNestingDepth"
    using single(2) [of k v] single(5) [of k v] kv by simp_all
  have "run (Scanning st (parseObjectKey built # ps)) (member (k, v) @ CHR ''}'' # rest)
        = run (endValue v (parseObjectValue built k # ps) (CHR ''}'')) rest"
    by (rule run_member [OF iv pk single(4) _ dv]) (simp_all)
  then show ?case
    by (simp add: kv isSpace_def update_fresh [OF fr])
next
  case (cons kv m)
  obtain k v where kv: "kv = (k, v)" by (cases kv)
  have fr: "k \<notin> fst ` set built"
    using cons(5) kv by auto
  have iv: "\<And>ps c rest. valuePosition ps \<Longrightarrow> follows v c \<Longrightarrow>
              depth v + length ps \<le> maxNestingDepth \<Longrightarrow>
              run (Scanning stateBeginValue ps) (render v @ c # rest) = run (endValue v ps c) rest"
    using cons(3) [of k v] kv by simp
  have pk: "list_all plainChar k" and dv: "depth v + Suc (length ps) \<le> maxNestingDepth"
    using cons(4) [of k v] cons(7) [of k v] kv by simp_all
  have "run (Scanning st (parseObjectKey built # ps))
          (member (k, v) @ CHR '','' # (commaSep (map member m) @ CHR ''}'' # rest))
        = run (endValue v (parseObjectValue built k # ps) (CHR '','')) (commaSep (map member m) @ CHR ''}'' # rest)"
    by (rule run_member [OF iv pk cons(6) _ dv]) (simp_all)
  also have "\<dots> = run (Scanning stateBeginString (parseObjectKey (built @ [(k, v)]) # ps))
                      (commaSep (map member m) @ CHR ''}'' # rest)"
    by (simp add: isSpace_def update_fresh [OF fr])
  also have "\<dots> = run (popParseState (VObject ((built @ [(k, v)]) @ m)) ps) rest"
  proof (rule cons(2))
    fix k' v' and ps' :: "'g frame list" and c' rest'
    assume "(k', v') \<in> set m" "valuePosition ps'" "follows v' c'"
      "depth v' + length ps' \<le> maxNestingDepth"
    then show "run (Scanning stateBeginValue ps') (render v' @ c' # rest')
               = run (endValue v' ps' c') rest'"
      using cons(3) [of k' v' ps' c' rest'] by simp
  next
    fix k' v'
    assume "(k', v') \<in> set m"
    then show "list_all plainChar k'" using cons(4) [of k' v'] by simp
  next
    show "distinct (map fst ((built @ [(k, v)]) @ m))"
      using cons(5) kv by simp
  next
    show "stateBeginString = stateBeginString \<or> stateBeginString = stateBeginStringOrEmpty"
      by simp
  next
    fix k' v'
    assume "(k', v') \<in> set m"
    then show "depth v' + Suc (length ps) \<le> maxNestingDepth" using cons(7) [of k' v'] by simp
  qed
  finally show ?case
    using cons(1) by (simp add: commaSep_Cons kv)
qed

lemma foldr_max_ge: "x \<in> set xs \<Longrightarrow> f x \<le> foldr max (map f xs) (0 :: nat)"
  by (induction xs) auto

lemma depth_element: "x \<in> set vs \<Longrightarrow> depth x < depth (VArray vs)"
  using foldr_max_ge [of x vs depth] by simp

lemma depth_member: "(k, v) \<in> set m \<Longrightarrow> depth v < depth (VObject m)"
  using foldr_max_ge [of "(k, v)" m "\<lambda>(k, v). depth v"] by simp

lemma endString_value:
  "valuePosition ps \<Longrightarrow>
   endString raw ps =
     (case unquote raw of
        None \<Rightarrow> scanError phasePanic
      | Some s \<Rightarrow> Scanning (stateEndValue (VString s)) ps)"
  by (cases ps rule: valuePosition.cases) (simp_all split: option.splits)

lemma run_orEmpty:
  "xs = ch # r \<Longrightarrow> \<not> isSpace ch \<Longrightarrow> ch \<noteq> CHR '']'' \<Longrightarrow>
   run (Scanning stateBeginValueOrEmpty ps) (xs @ ys) = run (Scanning stateBeginValue ps) (xs @ ys)"
  by simp

lemma commaSep_first: "commaSep (x # xs) = x @ (if xs = [] then [] else CHR '','' # commaSep xs)"
  by (cases xs) simp_all

lemma run_value:
  "isDocument v \<Longrightarrow> valuePosition ps \<Longrightarrow> follows v c \<Longrightarrow> depth v + length ps \<le> maxNestingDepth \<Longrightarrow>
   run (Scanning stateBeginValue ps) (render v @ c # rest) = run (endValue v ps c) rest"
proof (induction v arbitrary: ps c rest)
  case VNil
  then show ?case by (simp add: scan_simps)
next
  case (VBool b)
  then show ?case by (cases b) (simp_all add: scan_simps)
next
  case (VNumber n)
  then show ?case by (simp add: run_number_value)
next
  case (VString s)
  then have p: "list_all plainChar s" by simp
  have "run (Scanning stateBeginValue ps) (render (VString s) @ c # rest)
        = run (Scanning (stateString stateInString []) ps) (s @ dquote # c # rest)"
    by (simp add: scan_simps)
  also have "\<dots> = run (endString s ps) (c # rest)"
    by (rule run_string [OF p])
  also have "\<dots> = run (endValue (VString s) ps c) rest"
    by (simp add: endString_value [OF VString(2)] unquote_plain [OF p])
  finally show ?case .
next
  case (VBytes b)
  then show ?case by simp
next
  case (VNative g)
  then show ?case by simp
next
  case (VArray vs)
  let ?F = "parseArrayValue [] # ps"
  from VArray(5) have push: "length ?F \<le> maxNestingDepth" by simp
  have open_: "run (Scanning stateBeginValue ps) (render (VArray vs) @ c # rest)
        = run (Scanning stateBeginValueOrEmpty ?F) (commaSep (map render vs) @ CHR '']'' # c # rest)"
    using push by (simp add: isSpace_def beginValue_def pushParseState_def)
  show ?case
  proof (cases vs)
    case Nil
    with open_ show ?thesis
      by (simp add: isSpace_def popParseState_endValue)
  next
    case (Cons x xs)
    then have wfx: "isDocument x" using VArray(2) by simp
    from render_first [OF wfx] obtain ch r where
      first: "render x = ch # r" "\<not> isSpace ch" "ch \<noteq> CHR '']''"
      by blast
    have "commaSep (map render vs) = ch # (r @ (if xs = [] then [] else CHR '','' # commaSep (map render xs)))"
      unfolding Cons using first(1) by (simp add: commaSep_first)
    from run_orEmpty [OF this first(2,3)]
    have "run (Scanning stateBeginValueOrEmpty ?F) (commaSep (map render vs) @ CHR '']'' # c # rest)
          = run (Scanning stateBeginValue ?F) (commaSep (map render vs) @ CHR '']'' # c # rest)" .
    also have "\<dots> = run (popParseState (VArray ([] @ vs)) ps) (c # rest)"
    proof (rule run_elements)
      fix y and ps' :: "'a frame list" and c' rest'
      assume "y \<in> set vs" "valuePosition ps'" "follows y c'" "depth y + length ps' \<le> maxNestingDepth"
      then show "run (Scanning stateBeginValue ps') (render y @ c' # rest')
                 = run (endValue y ps' c') rest'"
        using VArray(1) [of y ps' c' rest'] VArray(2) by (simp add: list_all_iff)
    next
      show "vs \<noteq> []" using Cons by simp
    next
      fix y
      assume "y \<in> set vs"
      from depth_element [OF this] VArray(5)
      show "depth y + Suc (length ps) \<le> maxNestingDepth" by simp
    qed
    also have "\<dots> = run (endValue (VArray vs) ps c) rest"
      by (simp add: popParseState_endValue)
    finally show ?thesis using open_ by simp
  qed
next
  case (VObject m)
  let ?F = "parseObjectKey [] # ps"
  from VObject(5) have push: "length ?F \<le> maxNestingDepth" by simp
  have "(member :: string \<times> 'a iface \<Rightarrow> string)
          = (\<lambda>(k, v). dquote # k @ [dquote] @ '':'' @ render v)"
    by (auto simp: member_def fun_eq_iff)
  then have members: "render (VObject m) = CHR ''{'' # commaSep (map member m) @ ''}''"
    by simp
  have open_: "run (Scanning stateBeginValue ps) (render (VObject m) @ c # rest)
        = run (Scanning stateBeginStringOrEmpty ?F) (commaSep (map member m) @ CHR ''}'' # c # rest)"
    using push by (simp add: isSpace_def beginValue_def pushParseState_def members del: render.simps)
  show ?case
  proof (cases "m = []")
    case True
    with open_ show ?thesis
      by (simp add: isSpace_def popParseState_endValue)
  next
    case False
    have "run (Scanning stateBeginStringOrEmpty ?F) (commaSep (map member m) @ CHR ''}'' # c # rest)
          = run (popParseState (VObject ([] @ m)) ps) (c # rest)"
    proof (rule run_members [OF False])
      fix k v and ps' :: "'a frame list" and c' rest'
      assume kv: "(k, v) \<in> set m" and "valuePosition ps'" "follows v c'"
        "depth v + length ps' \<le> maxNestingDepth"
      moreover from kv VObject(2) have "isDocument v" by (auto simp: list_all_iff)
      ultimately show "run (Scanning stateBeginValue ps') (render v @ c' # rest')
                       = run (endValue v ps' c') rest'"
        using VObject(1) [of "(k, v)" v ps' c' rest'] by simp
    next
      fix k v
      assume "(k, v) \<in> set m"
      with VObject(2) show "list_all plainChar k" by (auto simp: list_all_iff)
    next
      show "distinct (map fst ([] @ m))" using VObject(2) by simp
    next
      show "stateBeginStringOrEmpty = stateBeginString \<or> stateBeginStringOrEmpty = stateBeginStringOrEmpty"
        by simp
    next
      fix k v
      assume "(k, v) \<in> set m"
      from depth_member [OF this] VObject(5)
      show "depth v + Suc (length ps) \<le> maxNestingDepth" by simp
    qed
    also have "\<dots> = run (endValue (VObject m) ps c) rest"
      by (simp add: popParseState_endValue)
    finally show ?thesis using open_ by simp
  qed
qed

section \<open>JSON texts through the scanner\<close>














lemma stringChars_hex:
  "stringChars (backslash # CHR ''u'' # h1 # h2 # h3 # h4 # s)
     = (hexDigit h1 \<and> hexDigit h2 \<and> hexDigit h3 \<and> hexDigit h4 \<and> stringChars s)"
  by simp












text \<open>
  The bytes of a JSON text nested no deeper than the scanner allows, followed by a byte that
  may follow it, take the scanner from the beginning of a value to the point after that value,
  with the value the text stands for as the value read.
\<close>

lemma delimits_delim [simp]:
  "delimits t (CHR '','')" "delimits t (CHR '']'')" "delimits t (CHR ''}'')" "delimits t (CHR '' '')"
  by (induction t; simp add: endsLiteral_def isDigit_def)+




















lemmas wf_simps = isNumber_def numberParts_def numberLiteral_def intPart_def fracPart_def
  expPart_def isDigit_def isDigit19_def plainChar_def dquote_def backslash_def maxNestingDepth_def


section \<open>The shared buffer\<close>

text \<open>
  What a successful write through the duplicating writer, or a read through the tee, leaves
  in the loader's buffer; and that only the I/O loader reads or changes the store.
\<close>

lemma multiWriter_Write_ok:
  assumes "multiWriter_Write wr (MultiWriter w b) p h = ((n, None), mw', h')"
  shows "\<exists>w'. mw' = MultiWriter w' b \<and> buffers h' = (buffers h)(b := buffers h b @ p)
          \<and> next_addr h' = next_addr h"
  using assms
  by (auto simp: multiWriter_Write_def Buffer_Write_def split: prod.splits option.splits if_splits)

lemma writeAll_ok:
  "writeAll wr (MultiWriter w b) ps h = (None, mw', h') \<Longrightarrow>
   buffers h' = (buffers h)(b := buffers h b @ concat ps)"
proof (induction ps arbitrary: w h)
  case Nil
  then show ?case by simp
next
  case (Cons p ps)
  from Cons.prems obtain n mw1 h1 where
    w1: "multiWriter_Write wr (MultiWriter w b) p h = ((n, None), mw1, h1)"
    and rest: "writeAll wr mw1 ps h1 = (None, mw', h')"
    by (auto split: prod.splits option.splits)
  from multiWriter_Write_ok [OF w1] obtain w1' where
    mw1: "mw1 = MultiWriter w1' b" and h1: "buffers h1 = (buffers h)(b := buffers h b @ p)"
    by blast
  from Cons.IH [OF rest [unfolded mw1]] h1 show ?case by (simp add: fun_eq_iff)
qed

lemma teeReader_Read_buffers:
  assumes "teeReader_Read rd (TeeReader r b) n h = ((p, err), t', h')"
  shows "\<exists>r'. t' = TeeReader r' b \<and> buffers h' = (buffers h)(b := buffers h b @ p)"
  using assms
  by (auto simp: teeReader_Read_def Buffer_Write_def split: prod.splits option.splits if_splits)

lemma readAll_buffers:
  "readAll rd (TeeReader r b) ns h = (bs, t', h') \<Longrightarrow>
   buffers h' = (buffers h)(b := buffers h b @ bs)"
proof (induction ns arbitrary: r h bs)
  case Nil
  then show ?case by simp
next
  case (Cons n ns)
  from Cons.prems obtain p err t1 h1 ps where
    r1: "teeReader_Read rd (TeeReader r b) n h = ((p, err), t1, h1)"
    and rest: "readAll rd t1 ns h1 = (ps, t', h')" and bs: "bs = p @ ps"
    by (auto split: prod.splits)
  from teeReader_Read_buffers [OF r1] obtain r1' where
    t1: "t1 = TeeReader r1' b" and h1: "buffers h1 = (buffers h)(b := buffers h b @ p)"
    by blast
  from Cons.IH [OF rest [unfolded t1]] h1 bs show ?case by (simp add: fun_eq_iff)
qed

lemma NewWriterLoader_fresh:
  assumes "NewWriterLoader source h = ((l, mw), h1)"
  shows "l = jsonIOLoader (next_addr h) \<and> mw = MultiWriter source (next_addr h)
         \<and> buffers h1 (next_addr h) = []"
  using assms by (auto simp: NewWriterLoader_def new_Buffer_def)

lemma NewReaderLoader_fresh:
  assumes "NewReaderLoader source h = ((l, t), h1)"
  shows "l = jsonIOLoader (next_addr h) \<and> t = TeeReader source (next_addr h)
         \<and> buffers h1 (next_addr h) = []"
  using assms by (auto simp: NewReaderLoader_def new_Buffer_def)

lemma LoadJSON_not_streaming:
  "\<not> streaming l \<Longrightarrow> LoadJSON Marshal h l = (fst (LoadJSON Marshal h' l), h)"
  by (cases l) (auto simp: streaming_def split: prod.splits option.splits)


lemma decode_twice_not_streaming:
  assumes "\<not> streaming l" and "LoadJSON Marshal h l = (first, h')"
  shows "LoadJSON Marshal h' l = (first, h')"
  using assms LoadJSON_not_streaming [of l Marshal h h] LoadJSON_not_streaming [of l Marshal h' h]
  by simp

section \<open>The pre-decoded, location-based and native-value loaders\<close>

text \<open>
  C4. For every value \<open>v\<close>, \<^verbatim>\<open>LoadJSON\<close> on the raw (pre-decoded) loader built from \<open>v\<close>
  returns exactly \<open>v\<close> and no error. Nothing is serialised or decoded: the result does not
  depend on \<open>Marshal\<close>, and the store of buffers is left as it was.
\<close>

theorem raw_loader_returns_source:
  "LoadJSON Marshal h (NewRawLoader v) = ((v, None), h)"
  by (simp add: NewRawLoader_def)

text \<open>
  C5. For the string, bytes, Go, I/O (reader or writer) and raw loaders, whatever their
  source, \<^verbatim>\<open>JsonReference\<close> returns the same-document identifier \<^verbatim>\<open>#\<close> and no error.
\<close>

theorem same_document_reference:
  "JsonReference wellFormed (NewStringLoader s) = (Reference ''#'', None)
   \<and> JsonReference wellFormed (NewBytesLoader b) = (Reference ''#'', None)
   \<and> JsonReference wellFormed (NewGoLoader g) = (Reference ''#'', None)
   \<and> JsonReference wellFormed (fst (fst (NewReaderLoader rsource h))) = (Reference ''#'', None)
   \<and> JsonReference wellFormed (fst (fst (NewWriterLoader wsource h))) = (Reference ''#'', None)
   \<and> JsonReference wellFormed (NewRawLoader v) = (Reference ''#'', None)"
  by (simp add: NewStringLoader_def NewBytesLoader_def NewGoLoader_def NewRawLoader_def
      NewReaderLoader_def NewWriterLoader_def new_Buffer_def NewJsonReference_def)

text \<open>
  C6. When \<^verbatim>\<open>json.Marshal\<close> fails on the native value, \<^verbatim>\<open>LoadJSON\<close> on the Go loader
  returns that error and a nil document. The decoder is not consulted: the result is the same
  whatever bytes came back with the error.
\<close>

theorem go_loader_marshal_error:
  "Marshal source = (jsonBytes, Some err) \<Longrightarrow>
   LoadJSON Marshal h (NewGoLoader source) = ((VNil, Some err), h)"
  by (simp add: NewGoLoader_def)

theorem go_loader_marshal_error_witness:
  "noMarshal (VNative ()) = ([], Some (UnsupportedTypeError ''func()''))
   \<and> LoadJSON noMarshal heap0 (NewGoLoader (VNative ()))
       = ((VNil, Some (UnsupportedTypeError ''func()'')), heap0)"
proof -
  have m: "noMarshal (VNative ()) = ([], Some (UnsupportedTypeError ''func()''))"
    by (simp add: noMarshal_def)
  from go_loader_marshal_error [of noMarshal "VNative ()" "[]" "UnsupportedTypeError ''func()''" heap0] m
  show ?thesis by simp
qed

text \<open>
  C8. For every source string the default factory and the file-system factory build the same
  loader, the reference loader on that string, so the four operations agree on the two.
\<close>

theorem factories_build_same_loader:
  "(New DefaultJSONLoaderFactory s :: 'g JSONLoader) = New FileSystemJSONLoaderFactory s
   \<and> (New DefaultJSONLoaderFactory s :: 'g JSONLoader) = NewReferenceLoader s
   \<and> JsonSource h (New DefaultJSONLoaderFactory s :: 'g JSONLoader)
       = JsonSource h (New FileSystemJSONLoaderFactory s)
   \<and> LoadJSON Marshal h (New DefaultJSONLoaderFactory s :: 'g JSONLoader)
       = LoadJSON Marshal h (New FileSystemJSONLoaderFactory s)
   \<and> JsonReference wellFormed (New DefaultJSONLoaderFactory s :: 'g JSONLoader)
       = JsonReference wellFormed (New FileSystemJSONLoaderFactory s :: 'g JSONLoader)
   \<and> LoaderFactory (New DefaultJSONLoaderFactory s :: 'g JSONLoader)
       = LoaderFactory (New FileSystemJSONLoaderFactory s :: 'g JSONLoader)"
  by (simp add: NewReferenceLoader_def)

text \<open>
  C9. For every source string, \<^verbatim>\<open>LoadJSON\<close> on a reference (location-based) loader, built
  directly or by either factory, returns a nil document and a nil error.
\<close>

theorem reference_loader_nil_nil:
  "LoadJSON Marshal h (NewReferenceLoader s) = ((VNil, None), h)
   \<and> LoadJSON Marshal h (New factory s) = ((VNil, None), h)"
  by (cases factory) (simp_all add: NewReferenceLoader_def)

section \<open>Bytes after the first value\<close>

text \<open>
  C10. A complete JSON value followed by further bytes is decoded without an error by the
  string and bytes loaders. For every well-formed document \<open>v\<close>, its text followed by any
  bytes (the first of which does not continue a numeric literal, when \<open>v\<close> is a number)
  decodes to \<open>v\<close> with a nil error, whatever the bytes are; for instance
  \<^verbatim>\<open>{"a":1}garbage\<close> decodes to the object.
\<close>

theorem trailing_bytes_left:
  assumes "isDocument v" and "depth v \<le> maxNestingDepth" and "follows v c"
  shows "LoadJSON Marshal h (NewStringLoader (render v @ c # garbage)) = ((v, None), h)
       \<and> LoadJSON Marshal h (NewBytesLoader (render v @ c # garbage)) = ((v, None), h)"
proof -
  have "run (Scanning stateBeginValue []) (render v @ c # garbage)
        = run (endValue v [] c) garbage"
    by (rule run_value) (use assms in simp_all)
  then have "run (Scanning stateBeginValue []) (render v @ c # garbage) = scanEnd v"
    by simp
  then show ?thesis
    by (simp add: NewStringLoader_def NewBytesLoader_def decode_atEOF atEOF_cases del: render.simps)
qed

theorem trailing_bytes_left_witness:
  \<open>isDocument (VObject [(''a'', VNumber ''1'')] :: unit iface)
   \<and> depth (VObject [(''a'', VNumber ''1'')] :: unit iface) \<le> maxNestingDepth
   \<and> follows (VObject [(''a'', VNumber ''1'')] :: unit iface) (CHR ''g'')
   \<and> render (VObject [(''a'', VNumber ''1'')] :: unit iface) @ ''garbage'' = ''{"a":1}garbage''
   \<and> LoadJSON noMarshal heap0 (NewStringLoader ''{"a":1}garbage'')
       = ((VObject [(''a'', VNumber ''1'')], None), heap0)
   \<and> LoadJSON noMarshal heap0 (NewBytesLoader ''{"a":1}garbage'')
       = ((VObject [(''a'', VNumber ''1'')], None), heap0)\<close>
proof -
  let ?v = "VObject [(''a'', VNumber ''1'')] :: unit iface"
  have a: "isDocument ?v" by (simp add: wf_simps)
  have b: "depth ?v \<le> maxNestingDepth" by (simp add: maxNestingDepth_def)
  have c: "follows ?v (CHR ''g'')" by simp
  have r: "render ?v @ ''garbage'' = ''{\"a\":1}garbage''" by (simp add: dquote_def)
  note t = trailing_bytes_left [OF a b c, of noMarshal heap0 "''arbage''"]
  from t have t1: "LoadJSON noMarshal heap0 (NewStringLoader ''{\"a\":1}garbage'')
       = ((VObject [(''a'', VNumber ''1'')], None), heap0)"
    by (elim conjE) (simp add: dquote_def)
  from t have t2: "LoadJSON noMarshal heap0 (NewBytesLoader ''{\"a\":1}garbage'')
       = ((VObject [(''a'', VNumber ''1'')], None), heap0)"
    by (elim conjE) (simp add: dquote_def)
  show ?thesis by (intro conjI a b c r t1 t2)
qed

section \<open>Numeric fidelity\<close>




section \<open>The streaming loader\<close>

text \<open>
  C7. For all chunks of bytes written with success through the duplicating writer that
  \<^verbatim>\<open>NewWriterLoader\<close> returns, \<^verbatim>\<open>LoadJSON\<close> on the loader returns what \<^verbatim>\<open>LoadJSON\<close> on a
  bytes loader over the same bytes returns.
\<close>

theorem streaming_equals_binary:
  assumes "NewWriterLoader source h = ((l, mw), h1)"
      and "writeAll wr mw ps h1 = (None, mw', h2)"
  shows "fst (LoadJSON Marshal h2 l) = fst (LoadJSON Marshal h3 (NewBytesLoader (concat ps)))"
proof -
  from NewWriterLoader_fresh [OF assms(1)] have
    l: "l = jsonIOLoader (next_addr h)" and mw: "mw = MultiWriter source (next_addr h)"
    and empty: "buffers h1 (next_addr h) = []"
    by simp_all
  from writeAll_ok [OF assms(2) [unfolded mw]] empty
  have "buffers h2 (next_addr h) = concat ps" by simp
  then show ?thesis
    unfolding l by (simp add: NewBytesLoader_def split: prod.splits)
qed

theorem streaming_equals_binary_witness:
  \<open>NewWriterLoader [] heap0 = ((jsonIOLoader 0 :: unit JSONLoader, MultiWriter [] 0), heap0\<lparr>next_addr := 1\<rparr>)
   \<and> writeAll sink (MultiWriter [] 0) [''{"a"'', '':1}''] (heap0\<lparr>next_addr := 1\<rparr>)
        = (None, MultiWriter ''{"a":1}'' 0, \<lparr>buffers = (\<lambda>b. [])(0 := ''{"a":1}''), next_addr = 1\<rparr>)
   \<and> fst (LoadJSON noMarshal \<lparr>buffers = (\<lambda>b. [])(0 := ''{"a":1}''), next_addr = 1\<rparr> (jsonIOLoader 0))
        = fst (LoadJSON noMarshal heap0 (NewBytesLoader ''{"a":1}''))
   \<and> fst (LoadJSON noMarshal heap0 (NewBytesLoader ''{"a":1}'')) = (VObject [(''a'', VNumber ''1'')], None)\<close>
proof -
  have a: "NewWriterLoader [] heap0 = ((jsonIOLoader 0 :: unit JSONLoader, MultiWriter [] 0), heap0\<lparr>next_addr := 1\<rparr>)"
    by (simp add: NewWriterLoader_def new_Buffer_def heap0_def fun_eq_iff)
  have b: "writeAll sink (MultiWriter [] 0) [''{\"a\"'', '':1}''] (heap0\<lparr>next_addr := 1\<rparr>)
        = (None, MultiWriter ''{\"a\":1}'' 0, \<lparr>buffers = (\<lambda>b. [])(0 := ''{\"a\":1}''), next_addr = 1\<rparr>)"
    by (simp add: multiWriter_Write_def sink_def Buffer_Write_def heap0_def fun_eq_iff)
  have c: "fst (LoadJSON noMarshal heap0 (NewBytesLoader ''{\"a\":1}'')) = (VObject [(''a'', VNumber ''1'')], None)"
    by (simp add: NewBytesLoader_def decode_object_a1)
  from streaming_equals_binary [OF a b, of noMarshal heap0] a b c show ?thesis by simp
qed

text \<open>
  C2, at the point where it fails. After \<^verbatim>\<open>{"a":1}\<close> has been written through the
  duplicating writer, the first \<^verbatim>\<open>LoadJSON\<close> on the I/O loader returns the object, and the
  second returns a nil document and io.EOF: the decoder was handed the buffer itself and has
  consumed it. (For every other strategy a second \<^verbatim>\<open>LoadJSON\<close> returns what the first did:
  \<open>decode_twice_not_streaming\<close>.)
\<close>

theorem streaming_second_decode:
  \<open>(case NewWriterLoader [] heap0 of ((l, mw), h1) \<Rightarrow>
      (case multiWriter_Write sink mw ''{"a":1}'' h1 of (written, mw', h2) \<Rightarrow>
        (case LoadJSON noMarshal h2 l of (first, h3) \<Rightarrow>
          (case LoadJSON noMarshal h3 l of (second, h4) \<Rightarrow>
             written = (7, None)
             \<and> first = (VObject [(''a'', VNumber ''1'')], None)
             \<and> second = (VNil, Some EOF)
             \<and> first \<noteq> second))))\<close>
  by (simp add: NewWriterLoader_def new_Buffer_def heap0_def multiWriter_Write_def sink_def
      Buffer_Write_def decode_object_a1 decode_empty)

text \<open>
  C3, as stated, fails for the I/O loader: \<^verbatim>\<open>JsonSource\<close> returns the bytes still unread in
  the buffer, which is \<^verbatim>\<open>{"a":1}\<close> after the write and nothing after a \<^verbatim>\<open>LoadJSON\<close>.
\<close>

theorem streaming_source_after_decode:
  \<open>(case NewWriterLoader [] heap0 of ((l, mw), h1) \<Rightarrow>
      (case multiWriter_Write sink mw ''{"a":1}'' h1 of (written, mw', h2) \<Rightarrow>
        (case LoadJSON noMarshal h2 l of (document, h3) \<Rightarrow>
           written = (7, None)
           \<and> JsonSource h2 l = VString ''{"a":1}''
           \<and> document = (VObject [(''a'', VNumber ''1'')], None)
           \<and> JsonSource h3 l = VString []
           \<and> JsonSource h3 l \<noteq> JsonSource h2 l)))\<close>
  by (simp add: NewWriterLoader_def new_Buffer_def heap0_def multiWriter_Write_def sink_def
      Buffer_Write_def Buffer_String_def decode_object_a1)

text \<open>
  C3, amended. For the reference, string, bytes, Go and raw loaders \<^verbatim>\<open>JsonSource\<close> returns
  the source the loader was built from, and for every loader but the I/O loader a
  \<^verbatim>\<open>LoadJSON\<close> does not change what \<^verbatim>\<open>JsonSource\<close> returns. For an I/O loader on which
  \<^verbatim>\<open>LoadJSON\<close> has not been called, \<^verbatim>\<open>JsonSource\<close> returns, as a string, all the bytes that
  have passed through its tee: those written with success through the duplicating writer, or
  those delivered by reads through the tee reader.
\<close>

theorem source_kept:
  assumes "NewWriterLoader wsource h = ((lw :: 'g JSONLoader, mw), hw1)"
      and "writeAll wr mw ps hw1 = (None, mw', hw2)"
      and "NewReaderLoader rsource h = ((lr :: 'g JSONLoader, t), hr1)"
      and "readAll rd t ns hr1 = (bs, t', hr2)"
      and "\<not> streaming (l :: 'g JSONLoader)"
  shows "JsonSource h (NewReferenceLoader s :: 'g JSONLoader) = VString s
       \<and> JsonSource h (NewStringLoader s :: 'g JSONLoader) = VString s
       \<and> JsonSource h (NewBytesLoader b :: 'g JSONLoader) = VBytes b
       \<and> JsonSource h (NewGoLoader g) = (g :: 'g iface)
       \<and> JsonSource h (NewRawLoader v) = (v :: 'g iface)
       \<and> JsonSource (snd (LoadJSON Marshal h l)) l = JsonSource h l
       \<and> JsonSource hw2 lw = VString (concat ps)
       \<and> JsonSource hr2 lr = VString bs"
proof -
  from NewWriterLoader_fresh [OF assms(1)] have
    lw: "lw = jsonIOLoader (next_addr h)" and mw: "mw = MultiWriter wsource (next_addr h)"
    and wempty: "buffers hw1 (next_addr h) = []"
    by simp_all
  from writeAll_ok [OF assms(2) [unfolded mw]] wempty
  have w: "JsonSource hw2 lw = VString (concat ps)"
    unfolding lw by (simp add: Buffer_String_def)
  from NewReaderLoader_fresh [OF assms(3)] have
    lr: "lr = jsonIOLoader (next_addr h)" and t: "t = TeeReader rsource (next_addr h)"
    and rempty: "buffers hr1 (next_addr h) = []"
    by simp_all
  from readAll_buffers [OF assms(4) [unfolded t]] rempty
  have r: "JsonSource hr2 lr = VString bs"
    unfolding lr by (simp add: Buffer_String_def)
  from LoadJSON_not_streaming [OF assms(5), of Marshal h h]
  have p: "JsonSource (snd (LoadJSON Marshal h l)) l = JsonSource h l"
    by (metis snd_conv)
  from w r p show ?thesis
    by (simp add: NewReferenceLoader_def NewStringLoader_def NewBytesLoader_def NewGoLoader_def
        NewRawLoader_def)
qed

theorem source_kept_witness:
  \<open>NewWriterLoader [] heap0
     = ((jsonIOLoader 0 :: unit JSONLoader, MultiWriter [] 0), heap0\<lparr>next_addr := 1\<rparr>)
   \<and> writeAll sink (MultiWriter [] 0) [''{"a"'', '':1}''] (heap0\<lparr>next_addr := 1\<rparr>)
     = (None, MultiWriter ''{"a":1}'' 0, \<lparr>buffers = (\<lambda>b. [])(0 := ''{"a":1}''), next_addr = 1\<rparr>)
   \<and> NewReaderLoader ''{"a":1}'' heap0
     = ((jsonIOLoader 0 :: unit JSONLoader, TeeReader ''{"a":1}'' 0), heap0\<lparr>next_addr := 1\<rparr>)
   \<and> readAll stringReader (TeeReader ''{"a":1}'' 0) [4, 2] (heap0\<lparr>next_addr := 1\<rparr>)
     = (''{"a":1'', TeeReader ''}'' 0, \<lparr>buffers = (\<lambda>b. [])(0 := ''{"a":1''), next_addr = 1\<rparr>)
   \<and> \<not> streaming (NewStringLoader ''{"a":1}'' :: unit JSONLoader)
   \<and> JsonSource (snd (LoadJSON noMarshal heap0 (NewStringLoader ''{"a":1}'')))
        (NewStringLoader ''{"a":1}'' :: unit JSONLoader)
     = VString ''{"a":1}''
   \<and> JsonSource \<lparr>buffers = (\<lambda>b. [])(0 := ''{"a":1}''), next_addr = 1\<rparr> (jsonIOLoader 0 :: unit JSONLoader)
     = VString ''{"a":1}''
   \<and> JsonSource \<lparr>buffers = (\<lambda>b. [])(0 := ''{"a":1''), next_addr = 1\<rparr> (jsonIOLoader 0 :: unit JSONLoader)
     = VString ''{"a":1''\<close>
proof -
  have a: "NewWriterLoader [] heap0
     = ((jsonIOLoader 0 :: unit JSONLoader, MultiWriter [] 0), heap0\<lparr>next_addr := 1\<rparr>)"
    by (simp add: NewWriterLoader_def new_Buffer_def heap0_def fun_eq_iff)
  have b: "writeAll sink (MultiWriter [] 0) [''{\"a\"'', '':1}''] (heap0\<lparr>next_addr := 1\<rparr>)
     = (None, MultiWriter ''{\"a\":1}'' 0, \<lparr>buffers = (\<lambda>b. [])(0 := ''{\"a\":1}''), next_addr = 1\<rparr>)"
    by (simp add: multiWriter_Write_def sink_def Buffer_Write_def heap0_def fun_eq_iff)
  have c: "NewReaderLoader ''{\"a\":1}'' heap0
     = ((jsonIOLoader 0 :: unit JSONLoader, TeeReader ''{\"a\":1}'' 0), heap0\<lparr>next_addr := 1\<rparr>)"
    by (simp add: NewReaderLoader_def new_Buffer_def heap0_def fun_eq_iff)
  have d: "readAll stringReader (TeeReader ''{\"a\":1}'' 0) [4, 2] (heap0\<lparr>next_addr := 1\<rparr>)
     = (''{\"a\":1'', TeeReader ''}'' 0, \<lparr>buffers = (\<lambda>b. [])(0 := ''{\"a\":1''), next_addr = 1\<rparr>)"
    by (simp add: teeReader_Read_def stringReader_def Read_def Buffer_Write_def heap0_def fun_eq_iff)
  have e: "\<not> streaming (NewStringLoader ''{\"a\":1}'' :: unit JSONLoader)"
    by (simp add: streaming_def NewStringLoader_def)
  note r = source_kept [OF a b c d e, where s = "''{\"a\":1}''" and Marshal = noMarshal
      and b = "[]" and g = VNil and v = VNil]
  from r have r1: "JsonSource (snd (LoadJSON noMarshal heap0 (NewStringLoader ''{\"a\":1}'')))
        (NewStringLoader ''{\"a\":1}'' :: unit JSONLoader) = VString ''{\"a\":1}''"
    by (elim conjE) (simp only:)
  from r have r2: "JsonSource \<lparr>buffers = (\<lambda>b. [])(0 := ''{\"a\":1}''), next_addr = 1\<rparr>
        (jsonIOLoader 0 :: unit JSONLoader) = VString ''{\"a\":1}''"
    by (elim conjE) simp
  from r have r3: "JsonSource \<lparr>buffers = (\<lambda>b. [])(0 := ''{\"a\":1''), next_addr = 1\<rparr>
        (jsonIOLoader 0 :: unit JSONLoader) = VString ''{\"a\":1''"
    by blast
  show ?thesis by (intro conjI a b c d e r1 r2 r3)
qed

end
